theory Spec2Isabelle
  imports Complex_Main "HOL-Library.Multiset"
begin

section \<open>Values, exceptions and console output\<close>

text \<open>
  The arrays of \<^verbatim>\<open>data.py\<close> hold floating-point numbers. The class only copies them
  and asks whether one is NaN, so a number is a real, an infinity or NaN; no arithmetic of
  the class itself is modelled on them.
\<close>

datatype float64 = Finite real | PosInf | NegInf | NaN

definition isnan :: "float64 \<Rightarrow> bool" where
  "isnan x = (x = NaN)"

text \<open>
  An exception is a value carrying its message. The \<^verbatim>\<open>TypeError\<close> of
  \<^verbatim>\<open>get_realisations\<close> and \<^verbatim>\<open>permute_replications\<close> (the index list is not a
  list) has no branch: the index list of the model is a list by its type.
\<close>

datatype error =
    RuntimeError string
  | IndexError string
  | AttributeError string
  | AssertionError string
  | ValueError string

text \<open>What \<^verbatim>\<open>print\<close> writes, one entry per call, with the values it formats.\<close>

datatype console_line =
    Index_list_report "(int \<times> int) list" "int \<times> int"
  | Adding_data nat nat nat
  | Overwriting_existing_data

definition and_then :: "error + 'a \<Rightarrow> ('a \<Rightarrow> error + 'b) \<Rightarrow> error + 'b" where
  "and_then r f = (case r of Inl e \<Rightarrow> Inl e | Inr x \<Rightarrow> f x)"

section \<open>Python indexing and slicing\<close>

text \<open>An integer index into an axis of length \<open>n\<close>: negative indices count from the end.\<close>

definition py_index :: "nat \<Rightarrow> int \<Rightarrow> nat option" where
  "py_index n i =
     (if 0 \<le> i \<and> i < int n then Some (nat i)
      else if - int n \<le> i \<and> i < 0 then Some (nat (i + int n))
      else None)"

text \<open>A slice bound is clipped to the axis, after a negative one is counted from the end.\<close>

definition slice_bound :: "nat \<Rightarrow> int \<Rightarrow> nat" where
  "slice_bound n i = (if i < 0 then nat (max 0 (i + int n)) else min (nat i) n)"

definition slice_stop :: "nat \<Rightarrow> int option \<Rightarrow> nat" where
  "slice_stop n stop = (case stop of None \<Rightarrow> n | Some e \<Rightarrow> slice_bound n e)"

definition py_slice :: "nat \<Rightarrow> int \<Rightarrow> int option \<Rightarrow> nat list" where
  "py_slice n start stop = [slice_bound n start ..< slice_stop n stop]"

text \<open>
  \<^verbatim>\<open>xs[start:stop] = vals\<close> on a one-axis numpy array: the values must be as many as
  the slice selects, or a single one, which is repeated.
\<close>

definition assign_slice :: "'a list \<Rightarrow> int \<Rightarrow> int option \<Rightarrow> 'a list \<Rightarrow> error + 'a list" where
  "assign_slice xs start stop vals =
     (let lo = slice_bound (length xs) start;
          m = slice_stop (length xs) stop - lo
      in if length vals = m then Inr (take lo xs @ vals @ drop (lo + m) xs)
         else if length vals = 1 then Inr (take lo xs @ replicate m (hd vals) @ drop (lo + m) xs)
         else Inl (ValueError ''could not broadcast input array''))"

section \<open>Arrays\<close>

text \<open>
  A numpy array of any rank is its shape and the value at each index tuple. Only index
  tuples inside the shape are meaningful.
\<close>

record ndarray =
  shape :: "nat list"
  elems :: "nat list \<Rightarrow> float64"

definition ndim :: "ndarray \<Rightarrow> nat" where
  "ndim a = length (shape a)"

definition swap_list :: "nat \<Rightarrow> nat \<Rightarrow> 'a list \<Rightarrow> 'a list" where
  "swap_list i j xs = xs[i := xs ! j, j := xs ! i]"

text \<open>\<^verbatim>\<open>np.expand_dims(data, data.ndim)\<close>: a new last axis of length one.\<close>

definition expand_dims :: "ndarray \<Rightarrow> ndarray" where
  "expand_dims a = \<lparr>shape = shape a @ [1], elems = (\<lambda>ix. elems a (butlast ix))\<rparr>"

definition swapaxes :: "ndarray \<Rightarrow> nat \<Rightarrow> nat \<Rightarrow> error + ndarray" where
  "swapaxes a i j =
     (if i < ndim a \<and> j < ndim a
      then Inr \<lparr>shape = swap_list i j (shape a), elems = (\<lambda>ix. elems a (swap_list i j ix))\<rparr>
      else Inl (ValueError ''axis is out of bounds''))"

definition shape_at :: "ndarray \<Rightarrow> nat \<Rightarrow> error + nat" where
  "shape_at a i =
     (if i < ndim a then Inr (shape a ! i) else Inl (IndexError ''tuple index out of range''))"

text \<open>
  The two-axis result arrays are kept by column, each column a list of \<open>nrows\<close> values,
  so that an array of no columns still has its rows. \<^verbatim>\<open>np.empty\<close> gives an array that
  holds whatever the memory held: \<open>mem\<close> is that content, by position in the row-major
  layout, and is part of the program state below.
\<close>

record 'a matrix =
  nrows :: nat
  cols :: "'a list list"

definition np_empty :: "(nat \<Rightarrow> 'a) \<Rightarrow> int \<Rightarrow> error + 'a list" where
  "np_empty mem n =
     (if n < 0 then Inl (ValueError ''negative dimensions are not allowed'')
      else Inr (map mem [0..<nat n]))"

definition np_empty2 :: "(nat \<Rightarrow> 'a) \<Rightarrow> int \<Rightarrow> nat \<Rightarrow> error + 'a matrix" where
  "np_empty2 mem n k =
     (if n < 0 then Inl (ValueError ''negative dimensions are not allowed'')
      else Inr \<lparr>nrows = nat n,
                cols = map (\<lambda>c. map (\<lambda>r. mem (r * k + c)) [0..<nat n]) [0..<k]\<rparr>)"

definition np_arange :: "nat \<Rightarrow> nat list" where
  "np_arange n = [0..<n]"

text \<open>
  \<^verbatim>\<open>np.repeat(xs, n)\<close> with one count for all entries: the result has \<open>n\<close> times the
  length of \<open>xs\<close>, and a negative length is refused.
\<close>

definition np_repeat :: "'a list \<Rightarrow> int \<Rightarrow> error + 'a list" where
  "np_repeat xs n =
     (if n < 0 \<and> xs \<noteq> [] then Inl (ValueError ''negative dimensions are not allowed'')
      else Inr (concat (map (replicate (nat n)) xs)))"

text \<open>\<^verbatim>\<open>realisations[start:stop, i] = vals\<close>.\<close>

definition setitem_col :: "'a matrix \<Rightarrow> int \<Rightarrow> int \<Rightarrow> nat \<Rightarrow> 'a list \<Rightarrow> error + 'a matrix" where
  "setitem_col m start stop i vals =
     (if i < length (cols m)
      then and_then (assign_slice (cols m ! i) start (Some stop) vals)
             (\<lambda>c. Inr (m\<lparr>cols := (cols m)[i := c]\<rparr>))
      else Inl (IndexError ''index is out of bounds for axis 1''))"

text \<open>
  \<^verbatim>\<open>data[i, start:stop, k]\<close> on the stored array. On three axes the result is the
  one-axis run of values that the slice selects. With fewer axes numpy refuses the three
  indices; with more, the result keeps the further axes and cannot be stored into a
  column, which the model reports as numpy's shape error.
\<close>

definition getitem :: "ndarray \<Rightarrow> int \<Rightarrow> int \<Rightarrow> int option \<Rightarrow> int \<Rightarrow> error + float64 list" where
  "getitem a i start stop k =
     (if ndim a < 3 then Inl (IndexError ''too many indices for array'')
      else case (py_index (shape a ! 0) i, py_index (shape a ! 2) k) of
             (Some i', Some k') \<Rightarrow>
               if ndim a = 3
               then Inr (map (\<lambda>j. elems a [i', j, k']) (py_slice (shape a ! 1) start stop))
               else Inl (ValueError ''could not broadcast input array'')
           | _ \<Rightarrow> Inl (IndexError ''index is out of bounds''))"

section \<open>The Data object and the program state\<close>

text \<open>
  An attribute that has not been assigned yet is \<open>None\<close>; reading it raises
  \<^verbatim>\<open>AttributeError\<close>. \<open>priv_data\<close> is the attribute \<^verbatim>\<open>_data\<close> behind the property
  \<^verbatim>\<open>data\<close>.
\<close>

record dataset =
  normalise :: bool
  priv_data :: "ndarray option"
  n_processes :: "nat option"
  n_samples :: "nat option"
  n_replications :: "nat option"

text \<open>
  The state of a run: the object, the random source of \<^verbatim>\<open>np.random\<close>, the console
  and the contents of memory that is allocated without being initialised. The random
  source is the permutation it returns at each draw, for each length asked, and the number
  of draws made so far.
\<close>

record state =
  self :: dataset
  random_source :: "nat \<Rightarrow> nat \<Rightarrow> nat list"
  draws :: nat
  stdout :: "console_line list"
  fresh_floats :: "nat \<Rightarrow> float64"
  fresh_ints :: "nat \<Rightarrow> int"

definition np_random_permutation :: "state \<Rightarrow> nat \<Rightarrow> nat list \<times> state" where
  "np_random_permutation st n = (random_source st (draws st) n, st\<lparr>draws := Suc (draws st)\<rparr>)"

definition py_print :: "console_line \<Rightarrow> state \<Rightarrow> state" where
  "py_print line st = st\<lparr>stdout := stdout st @ [line]\<rparr>"

definition attribute :: "string \<Rightarrow> 'a option \<Rightarrow> error + 'a" where
  "attribute name v = (case v of None \<Rightarrow> Inl (AttributeError name) | Some x \<Rightarrow> Inr x)"

definition data_getter :: "dataset \<Rightarrow> error + ndarray" where
  "data_getter ds = attribute ''_data'' (priv_data ds)"

definition n_realisations_samples :: "dataset \<Rightarrow> (int \<times> int) option \<Rightarrow> error + int" where
  "n_realisations_samples ds current_value =
     (case current_value of
        None \<Rightarrow> and_then (attribute ''n_samples'' (n_samples ds)) (\<lambda>s. Inr (int s))
      | Some cv \<Rightarrow> and_then (attribute ''n_samples'' (n_samples ds)) (\<lambda>s. Inr (int s - snd cv)))"

definition n_realisations_repl :: "dataset \<Rightarrow> error + int" where
  "n_realisations_repl ds = and_then (attribute ''n_replications'' (n_replications ds)) (\<lambda>r. Inr (int r))"

definition n_realisations :: "dataset \<Rightarrow> (int \<times> int) option \<Rightarrow> error + int" where
  "n_realisations ds current_value =
     and_then (n_realisations_samples ds current_value)
       (\<lambda>s. and_then (n_realisations_repl ds) (\<lambda>r. Inr (s * r)))"

text \<open>The property setter and deleter of \<^verbatim>\<open>data\<close>.\<close>

definition data_setter :: "state \<Rightarrow> ndarray \<Rightarrow> (error + unit) \<times> state" where
  "data_setter st d =
     (case data_getter (self st) of
        Inr _ \<Rightarrow> (Inl (AttributeError
           ''You can not assign a value to this attribute directly, use the set_data method instead.''), st)
      | Inl _ \<Rightarrow> (Inr (), st\<lparr>self := (self st)\<lparr>priv_data := Some d\<rparr>\<rparr>))"

definition data_deleter :: "state \<Rightarrow> (error + unit) \<times> state" where
  "data_deleter st =
     (let st1 = py_print Overwriting_existing_data st
      in case priv_data (self st1) of
           None \<Rightarrow> (Inl (AttributeError ''_data''), st1)
         | Some _ \<Rightarrow> (Inr (), st1\<lparr>self := (self st1)\<lparr>priv_data := None\<rparr>\<rparr>))"

section \<open>Setting the data\<close>

definition str_at :: "string \<Rightarrow> nat \<Rightarrow> error + char" where
  "str_at s i = (if i < length s then Inr (s ! i) else Inl (IndexError ''string index out of range''))"

definition str_index :: "string \<Rightarrow> char \<Rightarrow> error + nat" where
  "str_index s c =
     (if c \<in> set s then Inr (length (takeWhile (\<lambda>x. x \<noteq> c) s))
      else Inl (ValueError ''substring not found''))"

text \<open>
  Modelled from the spec: \<^verbatim>\<open>utils.swap_chars\<close> of the module \<^verbatim>\<open>idtxl_utils\<close>, which is
  not among the sources. The specification asks that a swap of two axes corresponds to a
  swap of the same two symbols in the tracking string.
\<close>

definition swap_chars :: "string \<Rightarrow> nat \<Rightarrow> nat \<Rightarrow> string" where
  "swap_chars s i_1 i_2 = swap_list i_1 i_2 s"

definition reorder_data :: "ndarray \<Rightarrow> string \<Rightarrow> error + ndarray" where
  "reorder_data data dim_order =
     (let missing_dims = fold (\<lambda>dim missing. removeAll dim missing) dim_order ''psr'';
          data1 = fold (\<lambda>dim d. expand_dims d) missing_dims data;
          dim_order1 = fold (\<lambda>dim order. order @ [dim]) missing_dims dim_order
      in and_then (str_at dim_order1 0)
        (\<lambda>c0. and_then
           (if c0 \<noteq> CHR ''p''
            then and_then (str_index dim_order1 CHR ''p'')
                   (\<lambda>ind_p. and_then (swapaxes data1 0 ind_p)
                   (\<lambda>d. Inr (d, swap_chars dim_order1 0 ind_p)))
            else Inr (data1, dim_order1))
        (\<lambda>(data2, dim_order2). and_then (str_at dim_order2 1)
        (\<lambda>c1. if c1 \<noteq> CHR ''s''
              then and_then (str_index dim_order2 CHR ''s'') (\<lambda>ind_s. swapaxes data2 1 ind_s)
              else Inr data2))))"

text \<open>The three assignments of \<^verbatim>\<open>_set_data_size\<close>, one after the other.\<close>

definition set_data_size :: "state \<Rightarrow> ndarray \<Rightarrow> (error + unit) \<times> state" where
  "set_data_size st data =
     (case shape_at data 0 of
        Inl e \<Rightarrow> (Inl e, st)
      | Inr p \<Rightarrow>
          (let st1 = st\<lparr>self := (self st)\<lparr>n_processes := Some p\<rparr>\<rparr>
           in case shape_at data 1 of
                Inl e \<Rightarrow> (Inl e, st1)
              | Inr s \<Rightarrow>
                  (let st2 = st1\<lparr>self := (self st1)\<lparr>n_samples := Some s\<rparr>\<rparr>
                   in case shape_at data 2 of
                        Inl e \<Rightarrow> (Inl e, st2)
                      | Inr r \<Rightarrow> (Inr (), st2\<lparr>self := (self st2)\<lparr>n_replications := Some r\<rparr>\<rparr>))))"

text \<open>
  Standardising one process. \<^verbatim>\<open>d[process, :, :]\<close> is flattened row by row into
  \<^verbatim>\<open>n_realisations()\<close> values, handed to \<^verbatim>\<open>utils.standardise\<close>, and the result is
  folded back into samples by replications and stored. \<^verbatim>\<open>utils.standardise\<close> is not among
  the sources and is a parameter here. An array that does not have exactly three axes, or
  whose shape differs from the stored counts, is refused with numpy's shape error (numpy
  accepts some such shapes when the further axes are singletons).
\<close>

definition ravel_index :: "nat list \<Rightarrow> nat list \<Rightarrow> nat" where
  "ravel_index sh ix = foldl (\<lambda>acc (n, i). acc * n + i) 0 (zip sh ix)"

definition np_empty_nd :: "(nat \<Rightarrow> float64) \<Rightarrow> nat list \<Rightarrow> ndarray" where
  "np_empty_nd mem sh = \<lparr>shape = sh, elems = (\<lambda>ix. mem (ravel_index sh ix))\<rparr>"

definition standardise_process ::
  "(float64 list \<Rightarrow> float64 list) \<Rightarrow> dataset \<Rightarrow> ndarray \<Rightarrow> nat \<Rightarrow> ndarray \<Rightarrow> error + ndarray" where
  "standardise_process standardise ds d process d_standardised =
     (if ndim d < 3 then Inl (IndexError ''too many indices for array'')
      else if \<not> process < shape d ! 0 then Inl (IndexError ''index is out of bounds for axis 0'')
      else and_then (n_realisations ds None)
        (\<lambda>n. and_then (attribute ''n_samples'' (n_samples ds))
        (\<lambda>n_s. and_then (attribute ''n_replications'' (n_replications ds))
        (\<lambda>n_r.
           if ndim d \<noteq> 3 \<or> shape d ! 1 \<noteq> n_s \<or> shape d ! 2 \<noteq> n_r
           then Inl (ValueError ''cannot reshape array'')
           else (let s = standardise
                           (map (\<lambda>k. elems d [process, k div n_r, k mod n_r]) [0..<n_s * n_r])
                 in if length s \<noteq> n_s * n_r then Inl (ValueError ''cannot reshape array'')
                    else Inr (d_standardised\<lparr>elems := (\<lambda>ix.
                           if ix ! 0 = process then s ! (ix ! 1 * n_r + ix ! 2)
                           else elems d_standardised ix)\<rparr>))))))"

fun standardise_processes ::
  "(float64 list \<Rightarrow> float64 list) \<Rightarrow> dataset \<Rightarrow> ndarray \<Rightarrow> nat list \<Rightarrow> ndarray \<Rightarrow> error + ndarray" where
  "standardise_processes standardise ds d [] d_standardised = Inr d_standardised"
| "standardise_processes standardise ds d (process # rest) d_standardised =
     and_then (standardise_process standardise ds d process d_standardised)
       (\<lambda>d'. standardise_processes standardise ds d rest d')"

definition normalise_data ::
  "(float64 list \<Rightarrow> float64 list) \<Rightarrow> state \<Rightarrow> ndarray \<Rightarrow> error + ndarray" where
  "normalise_data standardise st d =
     and_then (attribute ''n_processes'' (n_processes (self st)))
       (\<lambda>n_p. standardise_processes standardise (self st) d [0..<n_p]
                (np_empty_nd (fresh_floats st) (shape d)))"

text \<open>
  \<^verbatim>\<open>set_data\<close>. The \<^verbatim>\<open>delattr\<close> goes through the deleter of the property, and an
  AttributeError from it is passed over.
\<close>

definition set_data ::
  "(float64 list \<Rightarrow> float64 list) \<Rightarrow> state \<Rightarrow> ndarray \<Rightarrow> string \<Rightarrow> (error + unit) \<times> state" where
  "set_data standardise st data dim_order =
     (if length dim_order > 3
      then (Inl (RuntimeError ''dim_order can not have more than three entries''), st)
      else if length dim_order \<noteq> ndim data
      then (Inl (RuntimeError
              ''Data array dimension ({0}) and length of dim_order ({1}) are not equal.''), st)
      else case reorder_data data dim_order of
             Inl e \<Rightarrow> (Inl e, st)
           | Inr data_ordered \<Rightarrow>
               (case set_data_size st data_ordered of
                  (Inl e, st1) \<Rightarrow> (Inl e, st1)
                | (Inr _, st1) \<Rightarrow>
                    (case and_then (attribute ''n_processes'' (n_processes (self st1)))
                            (\<lambda>n_p. and_then (attribute ''n_samples'' (n_samples (self st1)))
                            (\<lambda>n_s. and_then (attribute ''n_replications'' (n_replications (self st1)))
                            (\<lambda>n_r. Inr (Adding_data n_p n_s n_r)))) of
                       Inl e \<Rightarrow> (Inl e, st1)
                     | Inr line \<Rightarrow>
                         (let st2 = py_print line st1
                          in case data_deleter st2 of
                               (Inl (RuntimeError m), st3) \<Rightarrow> (Inl (RuntimeError m), st3)
                             | (Inl (IndexError m), st3) \<Rightarrow> (Inl (IndexError m), st3)
                             | (Inl (AssertionError m), st3) \<Rightarrow> (Inl (AssertionError m), st3)
                             | (Inl (ValueError m), st3) \<Rightarrow> (Inl (ValueError m), st3)
                             | (_, st3) \<Rightarrow>
                                 if normalise (self st3)
                                 then (case normalise_data standardise st3 data_ordered of
                                         Inl e \<Rightarrow> (Inl e, st3)
                                       | Inr d \<Rightarrow> data_setter st3 d)
                                 else data_setter st3 data_ordered))))"

text \<open>The constructor, on a state whose object is about to be created.\<close>

definition init ::
  "(float64 list \<Rightarrow> float64 list) \<Rightarrow> state \<Rightarrow> ndarray option \<Rightarrow> string \<Rightarrow> bool
     \<Rightarrow> (error + unit) \<times> state" where
  "init standardise st data dim_order normalise_flag =
     (let st1 = st\<lparr>self := \<lparr>normalise = normalise_flag, priv_data = None, n_processes = None,
                              n_samples = None, n_replications = None\<rparr>\<rparr>
      in case data of
           None \<Rightarrow> (Inr (), st1)
         | Some d \<Rightarrow> set_data standardise st1 d dim_order)"

section \<open>Retrieving realisations\<close>

text \<open>The handler around the read of the stored array: an IndexError gets the message of the class.\<close>

definition reraise :: "error \<Rightarrow> error" where
  "reraise e =
     (case e of
        IndexError _ \<Rightarrow> IndexError ''You tried to access variable {0} in a data set with {1} processes and {2} samples.''
      | _ \<Rightarrow> e)"

text \<open>The loop over the replications, for one variable: \<open>i\<close> is its column, \<open>r\<close> the next row.\<close>

fun retrieve_replications ::
  "dataset \<Rightarrow> int \<times> int \<Rightarrow> int option \<Rightarrow> int \<Rightarrow> nat \<Rightarrow> nat list \<Rightarrow> int \<Rightarrow> float64 matrix
     \<Rightarrow> error + float64 matrix" where
  "retrieve_replications ds idx last_sample n_real_time i [] r realisations = Inr realisations"
| "retrieve_replications ds idx last_sample n_real_time i (replication # rest) r realisations =
     (case and_then (data_getter ds)
             (\<lambda>d. getitem d (fst idx) (snd idx) last_sample (int replication)) of
        Inl e \<Rightarrow> Inl (reraise e)
      | Inr vals \<Rightarrow>
          (case setitem_col realisations r (r + n_real_time) i vals of
             Inl e \<Rightarrow> Inl (reraise e)
           | Inr realisations' \<Rightarrow>
               retrieve_replications ds idx last_sample n_real_time i rest (r + n_real_time)
                 realisations'))"

text \<open>The loop over the variables of the index list.\<close>

fun retrieve ::
  "dataset \<Rightarrow> int \<times> int \<Rightarrow> int \<Rightarrow> nat list \<Rightarrow> (int \<times> int) list \<Rightarrow> nat \<Rightarrow> float64 matrix
     \<Rightarrow> error + float64 matrix" where
  "retrieve ds current_value n_real_time replications_order [] i realisations = Inr realisations"
| "retrieve ds current_value n_real_time replications_order (idx # rest) i realisations =
     (let last_sample = (if snd idx - snd current_value = 0 then None
                         else Some (snd idx - snd current_value))
      in case retrieve_replications ds idx last_sample n_real_time i replications_order 0
                realisations of
           Inl e \<Rightarrow> Inl e
         | Inr realisations' \<Rightarrow>
             if list_ex isnan (cols realisations' ! i)
             then Inl (AssertionError ''There are nans in the retrieved realisations.'')
             else retrieve ds current_value n_real_time replications_order rest (Suc i)
                    realisations')"

definition get_data ::
  "state \<Rightarrow> (int \<times> int) list \<Rightarrow> int \<times> int \<Rightarrow> bool
     \<Rightarrow> (error + float64 matrix \<times> nat list) \<times> state" where
  "get_data st idx_list current_value shuffle =
     (if \<not> list_all (\<lambda>x. snd x \<le> snd current_value) idx_list
      then (Inl (RuntimeError
              ''All indices for which data is retrieved must  be smaller than the current value.''),
            py_print (Index_list_report idx_list current_value) st)
      else case and_then (n_realisations_samples (self st) (Some current_value))
                  (\<lambda>n_real_time. and_then (n_realisations_repl (self st))
                  (\<lambda>n_real_repl. and_then (np_empty2 (fresh_floats st) (n_real_time * n_real_repl) (length idx_list))
                  (\<lambda>realisations. and_then (attribute ''n_replications'' (n_replications (self st)))
                  (\<lambda>n. Inr (n_real_time, realisations, n))))) of
             Inl e \<Rightarrow> (Inl e, st)
           | Inr (n_real_time, realisations, n) \<Rightarrow>
               (let (replications_order, st1) =
                      (if shuffle then np_random_permutation st n else (np_arange n, st))
                in (and_then (retrieve (self st1) current_value n_real_time replications_order
                                idx_list 0 realisations)
                     (\<lambda>realisations'. and_then (np_repeat replications_order n_real_time)
                     (\<lambda>replications_index.
                        if length replications_index \<noteq> nrows realisations'
                        then Inl (AssertionError
                               ''There seems to be a problem with the replications index.'')
                        else Inr (realisations', replications_index))),
                    st1)))"

definition get_realisations ::
  "state \<Rightarrow> int \<times> int \<Rightarrow> (int \<times> int) list \<Rightarrow> (error + float64 matrix \<times> nat list) \<times> state" where
  "get_realisations st current_value idx_list = get_data st idx_list current_value False"

definition permute_replications ::
  "state \<Rightarrow> int \<times> int \<Rightarrow> (int \<times> int) list \<Rightarrow> (error + float64 matrix \<times> nat list) \<times> state" where
  "permute_replications st current_value idx_list = get_data st idx_list current_value True"

section \<open>Permuting samples within replications\<close>

text \<open>The argument \<^verbatim>\<open>perm_range\<close> is an integer or a string.\<close>

datatype perm_range = Range_int int | Range_str string

text \<open>Indexing with a boolean mask: the entries, or the rows, where the mask is true.\<close>

definition count_true :: "bool list \<Rightarrow> nat" where
  "count_true msk = length (filter (\<lambda>b. b) msk)"

definition select_mask :: "bool list \<Rightarrow> 'a list \<Rightarrow> 'a list" where
  "select_mask msk xs = map snd (filter fst (zip msk xs))"

fun put_mask :: "bool list \<Rightarrow> 'a list \<Rightarrow> 'a list \<Rightarrow> 'a list" where
  "put_mask (True # msk) (x # xs) (v # vs) = v # put_mask msk xs vs"
| "put_mask (False # msk) (x # xs) vs = x # put_mask msk xs vs"
| "put_mask msk xs vs = xs"

text \<open>\<^verbatim>\<open>xs[mask] = vals\<close> on a one-axis array.\<close>

definition assign_mask :: "bool list \<Rightarrow> 'a list \<Rightarrow> 'a list \<Rightarrow> error + 'a list" where
  "assign_mask msk xs vals =
     (if length msk \<noteq> length xs
      then Inl (IndexError ''boolean index did not match indexed array'')
      else if length vals = count_true msk then Inr (put_mask msk xs vals)
      else if length vals = 1
      then Inr (put_mask msk xs (replicate (count_true msk) (hd vals)))
      else Inl (ValueError ''cannot assign input values to the output values where the mask is true''))"

text \<open>\<^verbatim>\<open>m[mask, :]\<close>, \<^verbatim>\<open>d[perm, :]\<close> and \<^verbatim>\<open>m[mask, :] = v\<close> on a two-axis array.\<close>

definition getitem_rows :: "'a matrix \<Rightarrow> bool list \<Rightarrow> error + 'a matrix" where
  "getitem_rows m msk =
     (if length msk \<noteq> nrows m
      then Inl (IndexError ''boolean index did not match indexed array'')
      else Inr \<lparr>nrows = count_true msk, cols = map (select_mask msk) (cols m)\<rparr>)"

definition take_rows :: "'a matrix \<Rightarrow> int list \<Rightarrow> error + 'a matrix" where
  "take_rows d perm =
     (if list_all (\<lambda>p. py_index (nrows d) p \<noteq> None) perm
      then Inr \<lparr>nrows = length perm,
                cols = map (\<lambda>c. map (\<lambda>p. c ! the (py_index (nrows d) p)) perm) (cols d)\<rparr>
      else Inl (IndexError ''index is out of bounds for axis 0''))"

definition setitem_rows :: "'a matrix \<Rightarrow> bool list \<Rightarrow> 'a matrix \<Rightarrow> error + 'a matrix" where
  "setitem_rows m msk v =
     (if length msk \<noteq> nrows m
      then Inl (IndexError ''boolean index did not match indexed array'')
      else if nrows v = count_true msk
      then Inr (m\<lparr>cols := map2 (put_mask msk) (cols m) (cols v)\<rparr>)
      else if nrows v = 1
      then Inr (m\<lparr>cols := map2 (\<lambda>c w. put_mask msk c (replicate (count_true msk) (hd w)))
                              (cols m) (cols v)\<rparr>)
      else Inl (ValueError ''shape mismatch: value array could not be broadcast to indexing result''))"

text \<open>
  The loop that fills the permutation block by block: each block is a fresh draw of
  \<^verbatim>\<open>np.random.permutation(perm_range)\<close>, shifted by the block's first position \<open>i\<close>.
\<close>

fun permute_blocks ::
  "nat list \<Rightarrow> int \<Rightarrow> state \<Rightarrow> int list \<Rightarrow> int \<Rightarrow> (error + int list \<times> int) \<times> state" where
  "permute_blocks [] perm_range st perm i = (Inr (perm, i), st)"
| "permute_blocks (p # ps) perm_range st perm i =
     (let (draw, st1) = np_random_permutation st (nat perm_range)
      in case assign_slice perm i (Some (i + perm_range)) (map (\<lambda>x. int x + i) draw) of
           Inl e \<Rightarrow> (Inl e, st1)
         | Inr perm' \<Rightarrow> permute_blocks ps perm_range st1 perm' (i + perm_range))"

text \<open>
  The part of \<^verbatim>\<open>permute_samples\<close> that creates the permutation, to be applied to the
  realisations of each replication in turn.
\<close>

definition create_permutation :: "state \<Rightarrow> int \<Rightarrow> int \<Rightarrow> (error + int list) \<times> state" where
  "create_permutation st n_per_repl perm_range =
     (if perm_range = n_per_repl
      then (let (draw, st1) = np_random_permutation st (nat n_per_repl)
            in (Inr (map int draw), st1))
      else case np_empty (fresh_ints st) n_per_repl of
             Inl e \<Rightarrow> (Inl e, st)
           | Inr perm \<Rightarrow>
               (let remainder = n_per_repl mod perm_range
                in case permute_blocks [0..<nat (n_per_repl div perm_range)] perm_range st perm 0 of
                     (Inl e, st1) \<Rightarrow> (Inl e, st1)
                   | (Inr (perm1, i), st1) \<Rightarrow>
                       if remainder > 0
                       then (let (draw, st2) = np_random_permutation st1 (nat remainder)
                             in (assign_slice perm1 (- remainder) None
                                   (map (\<lambda>x. int x + i) draw), st2))
                       else (Inr perm1, st1)))"

text \<open>The loop that applies the permutation to the rows of each replication.\<close>

fun apply_permutation ::
  "nat list \<Rightarrow> int list \<Rightarrow> nat list \<Rightarrow> float64 matrix \<Rightarrow> float64 list
     \<Rightarrow> error + float64 matrix \<times> float64 list" where
  "apply_permutation replication_idx perm [] realisations_perm perm_idx =
     Inr (realisations_perm, perm_idx)"
| "apply_permutation replication_idx perm (replication # rest) realisations_perm perm_idx =
     (let msk = map (\<lambda>x. x = replication) replication_idx
      in and_then (getitem_rows realisations_perm msk)
        (\<lambda>d. and_then (take_rows d perm)
        (\<lambda>dp. and_then (setitem_rows realisations_perm msk dp)
        (\<lambda>realisations_perm'.
           and_then (assign_mask msk perm_idx (map (\<lambda>p. Finite (of_int p)) perm))
        (\<lambda>perm_idx'.
           apply_permutation replication_idx perm rest realisations_perm' perm_idx')))))"

text \<open>
  The messages are given with their format fields unfilled and without the quotation
  marks inside them.
\<close>

definition check_perm_range :: "perm_range \<Rightarrow> int \<Rightarrow> error + int" where
  "check_perm_range perm_range n_per_repl =
     (case perm_range of
        Range_int b \<Rightarrow>
          if b > 1 then Inr b
          else Inl (AssertionError
            ''Permutation range has to be larger than 1 otherwise there is nothing to permute.'')
      | Range_str s \<Rightarrow>
          if s = ''max'' then Inr n_per_repl
          else Inl (ValueError ''Unkown value for perm_range: {0}''))"

definition permute_samples ::
  "state \<Rightarrow> int \<times> int \<Rightarrow> (int \<times> int) list \<Rightarrow> perm_range
     \<Rightarrow> (error + float64 matrix \<times> float64 list) \<times> state" where
  "permute_samples st current_value idx_list perm_range =
     (case get_realisations st current_value idx_list of
        (Inl e, st1) \<Rightarrow> (Inl e, st1)
      | (Inr (realisations, replication_idx), st1) \<Rightarrow>
          (let realisations_perm = realisations;
               n_per_repl = int (count_list replication_idx 0)
           in case check_perm_range perm_range n_per_repl of
                Inl e \<Rightarrow> (Inl e, st1)
              | Inr perm_range' \<Rightarrow>
                  if length replication_idx \<noteq> nrows realisations
                  then (Inl (AssertionError
                    ''Array replication index must have as many entries as the first dimension of array realisations.''),
                    st1)
                  else if \<not> n_per_repl \<ge> perm_range'
                  then (Inl (AssertionError
                    ''Not enough realisations per replication ({0}) to allow for the requested perm_range ({1}).''),
                    st1)
                  else case create_permutation st1 n_per_repl perm_range' of
                         (Inl e, st2) \<Rightarrow> (Inl e, st2)
                       | (Inr perm, st2) \<Rightarrow>
                           (and_then (np_empty (fresh_floats st2) (int (nrows realisations_perm)))
                              (\<lambda>perm_idx.
                                 and_then (attribute ''n_replications'' (n_replications (self st2)))
                              (\<lambda>n. apply_permutation replication_idx perm [0..<n]
                                      realisations_perm perm_idx)),
                            st2)))"

section \<open>Well-formed requests and example data\<close>

text \<open>
  The object holds the array \<open>d\<close> of \<open>P\<close> processes, \<open>S\<close> samples and \<open>R\<close> replications,
  as \<^verbatim>\<open>set_data\<close> leaves it.
\<close>

definition stores :: "dataset \<Rightarrow> ndarray \<Rightarrow> nat \<Rightarrow> nat \<Rightarrow> nat \<Rightarrow> bool" where
  "stores ds d P S R =
     (priv_data ds = Some d \<and> shape d = [P, S, R] \<and> n_processes ds = Some P \<and>
      n_samples ds = Some S \<and> n_replications ds = Some R)"

definition nan_free :: "ndarray \<Rightarrow> bool" where
  "nan_free d =
     list_all (\<lambda>p. list_all (\<lambda>j. list_all (\<lambda>r. \<not> isnan (elems d [p, j, r]))
       [0..<shape d ! 2]) [0..<shape d ! 1]) [0..<shape d ! 0]"

text \<open>
  A variable that can be read from \<open>P\<close> processes at the current value's sample \<open>t\<close>: its
  process is an index numpy accepts and its sample lies between 0 and \<open>t\<close>.
\<close>

definition valid_variable :: "nat \<Rightarrow> int \<Rightarrow> int \<times> int \<Rightarrow> bool" where
  "valid_variable P t idx = (- int P \<le> fst idx \<and> fst idx < int P \<and> 0 \<le> snd idx \<and> snd idx \<le> t)"

text \<open>\<^verbatim>\<open>np.random.permutation(n)\<close> returns a permutation of \<open>0, \<dots>, n - 1\<close> at every draw.\<close>

definition valid_random_source :: "state \<Rightarrow> bool" where
  "valid_random_source st = (\<forall>k n. mset (random_source st k n) = mset [0..<n])"

text \<open>The rows of a realisation array that belong to one replication.\<close>

definition rows_of :: "nat list \<Rightarrow> nat \<Rightarrow> 'a list \<Rightarrow> 'a list" where
  "rows_of replication_idx r xs = select_mask (map (\<lambda>x. x = r) replication_idx) xs"

text \<open>The \<open>j\<close>-th group of \<open>n\<close> consecutive rows.\<close>

definition block :: "nat \<Rightarrow> nat \<Rightarrow> 'a list \<Rightarrow> 'a list" where
  "block n j xs = take n (drop (j * n) xs)"

text \<open>
  What a successful retrieval puts into the column of a variable: for each replication
  of the traversal order in turn, the \<open>n\<close> values of the variable's process from the
  variable's sample on.
\<close>

definition segment :: "ndarray \<Rightarrow> nat \<Rightarrow> nat \<Rightarrow> nat \<Rightarrow> nat \<Rightarrow> float64 list" where
  "segment d p s n r = map (\<lambda>j. elems d [p, j, r]) [s..<s + n]"

definition column_of :: "ndarray \<Rightarrow> nat \<Rightarrow> nat \<Rightarrow> nat list \<Rightarrow> int \<times> int \<Rightarrow> float64 list" where
  "column_of d P n order idx =
     concat (map (segment d (the (py_index P (fst idx))) (nat (snd idx)) n) order)"

text \<open>None of the values that a request reads, in the natural order of replications, is NaN.\<close>

definition retrieved_nan_free :: "ndarray \<Rightarrow> nat \<Rightarrow> nat \<Rightarrow> nat \<Rightarrow> (int \<times> int) list \<Rightarrow> bool" where
  "retrieved_nan_free d P n R idx_list =
     list_all (\<lambda>idx. \<not> list_ex isnan (column_of d P n [0..<R] idx)) idx_list"

text \<open>The size of the array along the axis that the order string names \<open>c\<close>, or 1.\<close>

definition axis_size :: "ndarray \<Rightarrow> string \<Rightarrow> char \<Rightarrow> nat" where
  "axis_size data dim_order c =
     (case str_index dim_order c of Inr i \<Rightarrow> shape data ! i | Inl _ \<Rightarrow> 1)"

definition valid_dim_order :: "ndarray \<Rightarrow> string \<Rightarrow> bool" where
  "valid_dim_order data dim_order =
     (distinct dim_order \<and> set dim_order \<subseteq> {CHR ''p'', CHR ''s'', CHR ''r''} \<and>
      length dim_order = ndim data \<and> 1 \<le> ndim data \<and> ndim data \<le> 3)"

text \<open>
  The array \<^verbatim>\<open>np.arange(24).reshape(2, 4, 3)\<close>: two processes, four samples and three
  replications of sequential integers.
\<close>

definition sequential_array :: ndarray where
  "sequential_array =
     \<lparr>shape = [2, 4, 3], elems = (\<lambda>ix. Finite (real (ix ! 0 * 12 + ix ! 1 * 3 + ix ! 2)))\<rparr>"

text \<open>A state before any object is made; its random source reverses the range.\<close>

definition blank_state :: state where
  "blank_state =
     \<lparr>self = \<lparr>normalise = True, priv_data = None, n_processes = None, n_samples = None,
              n_replications = None\<rparr>,
      random_source = (\<lambda>k n. rev [0..<n]), draws = 0, stdout = [],
      fresh_floats = (\<lambda>_. NaN), fresh_ints = (\<lambda>_. 0)\<rparr>"

text \<open>The state after \<^verbatim>\<open>Data(np.arange(24).reshape(2, 4, 3), 'psr', normalise=False)\<close>.\<close>

definition sequential_state :: state where
  "sequential_state =
     \<lparr>self = \<lparr>normalise = False, priv_data = Some sequential_array, n_processes = Some 2,
              n_samples = Some 4, n_replications = Some 3\<rparr>,
      random_source = (\<lambda>k n. rev [0..<n]), draws = 0,
      stdout = [Adding_data 2 4 3, Overwriting_existing_data],
      fresh_floats = (\<lambda>_. NaN), fresh_ints = (\<lambda>_. 0)\<rparr>"

text \<open>The sequential array with every value replaced by NaN, in the same object.\<close>

definition nan_state :: state where
  "nan_state =
     sequential_state\<lparr>self := (self sequential_state)
       \<lparr>priv_data := Some (sequential_array\<lparr>elems := (\<lambda>ix. NaN)\<rparr>)\<rparr>\<rparr>"

text \<open>
  Modelled from the spec: \<^verbatim>\<open>utils.standardise\<close> of the module \<^verbatim>\<open>idtxl_utils\<close>, which is
  not among the sources. The specification asks that the values of a process, all samples
  and replications flattened together, are brought to zero mean and unit variance: each
  value has the mean subtracted and is divided by the standard deviation. The arithmetic
  is that of the reals; a list with a value that is not finite, or with no spread,
  gives NaN throughout, as the division does.
\<close>

definition is_finite :: "float64 \<Rightarrow> bool" where
  "is_finite x = (case x of Finite v \<Rightarrow> True | _ \<Rightarrow> False)"

definition finite_value :: "float64 \<Rightarrow> real" where
  "finite_value x = (case x of Finite v \<Rightarrow> v | _ \<Rightarrow> 0)"

definition standardise_spec :: "float64 list \<Rightarrow> float64 list" where
  "standardise_spec xs =
     (let vs = map finite_value xs;
          mean = sum_list vs / real (length vs);
          sd = sqrt (sum_list (map (\<lambda>v. (v - mean)\<^sup>2) vs) / real (length vs))
      in if list_all is_finite xs \<and> sd \<noteq> 0 then map (\<lambda>v. Finite ((v - mean) / sd)) vs
         else map (\<lambda>x. NaN) xs)"

text \<open>The state after \<^verbatim>\<open>Data(np.arange(24).reshape(2, 4, 3), 'psr')\<close>, which normalises.\<close>

definition normalised_state :: state where
  "normalised_state = snd (init standardise_spec blank_state (Some sequential_array) ''psr'' True)"


section \<open>Basic facts\<close>

lemma and_then_simps [simp]:
  "and_then (Inl e) f = Inl e"
  "and_then (Inr x) f = f x"
  by (simp_all add: and_then_def)

lemma attribute_simps [simp]:
  "attribute name None = Inl (AttributeError name)"
  "attribute name (Some x) = Inr x"
  by (simp_all add: attribute_def)

section \<open>Requests that are refused\<close>

text \<open>
  Claim C4. When some variable of the index list has a sample after the current value's,
  \<^verbatim>\<open>get_realisations\<close> and \<^verbatim>\<open>permute_replications\<close> raise the RuntimeError about
  indices that must be smaller than the current value. The only change of the state is
  one more line on the console, which reports the index list and the current value: no
  array is returned, no random number is drawn, and the object with its stored array and
  its counts is as before.
\<close>

theorem out_of_range_request_refused:
  assumes "list_ex (\<lambda>x. snd current_value < snd x) idx_list"
  shows "get_realisations st current_value idx_list =
           (Inl (RuntimeError
              ''All indices for which data is retrieved must  be smaller than the current value.''),
            st\<lparr>stdout := stdout st @ [Index_list_report idx_list current_value]\<rparr>)
       \<and> permute_replications st current_value idx_list =
           (Inl (RuntimeError
              ''All indices for which data is retrieved must  be smaller than the current value.''),
            st\<lparr>stdout := stdout st @ [Index_list_report idx_list current_value]\<rparr>)
       \<and> self (snd (get_realisations st current_value idx_list)) = self st
       \<and> self (snd (permute_replications st current_value idx_list)) = self st"
proof -
  from assms have "\<not> list_all (\<lambda>x. snd x \<le> snd current_value) idx_list"
    by (fastforce simp: list_ex_iff list_all_iff)
  then show ?thesis
    by (simp add: get_realisations_def permute_replications_def get_data_def py_print_def)
qed

theorem out_of_range_request_refused_witness:
  "list_ex (\<lambda>x. snd (0 :: int, 3 :: int) < snd x) [(0 :: int, 5 :: int)]
   \<and> get_realisations sequential_state (0, 3) [(0, 5)] =
       (Inl (RuntimeError
          ''All indices for which data is retrieved must  be smaller than the current value.''),
        sequential_state\<lparr>stdout := stdout sequential_state @ [Index_list_report [(0, 5)] (0, 3)]\<rparr>)
   \<and> priv_data (self (snd (get_realisations sequential_state (0, 3) [(0, 5)]))) =
       Some sequential_array"
proof -
  have h: "list_ex (\<lambda>x. snd (0, 3 :: int) < snd x) [(0 :: int, 5 :: int)]" by simp
  show ?thesis
    using h out_of_range_request_refused [OF h, of sequential_state]
    by (simp add: sequential_state_def)
qed

section \<open>The empty index list\<close>

text \<open>
  Claim C10. With \<open>S\<close> samples, \<open>R\<close> replications and a current value at sample \<open>t\<close>,
  \<open>0 \<le> t \<le> S\<close>, the empty index list is accepted: \<^verbatim>\<open>get_realisations\<close> returns an array
  of \<open>(S - t) * R\<close> rows and no column, and the replication index in which each of
  \<open>0, \<dots>, R - 1\<close> stands \<open>S - t\<close> times in a row, in ascending order. The state is unchanged.
\<close>

theorem empty_index_list_accepted:
  assumes "n_samples (self st) = Some S" and "n_replications (self st) = Some R"
    and "0 \<le> t" and "t \<le> int S"
  shows "get_realisations st (p, t) [] =
           (Inr (\<lparr>nrows = (S - nat t) * R, cols = []\<rparr>,
                 concat (map (replicate (S - nat t)) [0..<R])), st)"
proof -
  have n: "nat (int S - t) = S - nat t" using assms by linarith
  have "\<not> (int S - t) * int R < 0" using assms by (simp add: not_less)
  moreover have "nat ((int S - t) * int R) = (S - nat t) * R"
    using assms n by (simp add: nat_mult_distrib)
  moreover have "length (concat (map (replicate (S - nat t)) [0..<R])) = (S - nat t) * R"
    by (simp add: length_concat comp_def sum_list_triv)
  ultimately show ?thesis
    using assms n
    by (simp add: get_realisations_def get_data_def n_realisations_samples_def
        n_realisations_repl_def np_empty2_def np_arange_def np_repeat_def)
qed

theorem empty_index_list_accepted_witness:
  "n_samples (self sequential_state) = Some 4 \<and> n_replications (self sequential_state) = Some 3
   \<and> (0::int) \<le> 2 \<and> (2::int) \<le> int 4
   \<and> get_realisations sequential_state (1, 2) [] =
       (Inr (\<lparr>nrows = 6, cols = []\<rparr>, [0, 0, 1, 1, 2, 2]), sequential_state)"
proof -
  have h1: "n_samples (self sequential_state) = Some 4"
    and h2: "n_replications (self sequential_state) = Some 3"
    by (simp_all add: sequential_state_def)
  have h3: "(0::int) \<le> 2" and h4: "(2::int) \<le> int 4" by simp_all
  have "[0..<3] = [0, 1, 2]" by (simp add: upt_rec)
  moreover have "replicate 2 x = [x, x]" for x :: nat by (simp add: numeral_2_eq_2)
  ultimately show ?thesis
    using h1 h2 empty_index_list_accepted [OF h1 h2 h3 h4, of 1] by simp
qed

section \<open>Retrieval from a well-formed request\<close>


lemma slice_bound_le: "slice_bound n i \<le> n"
proof (cases "i < 0")
  case True
  have "nat (max 0 (i + int n)) \<le> n" using True by linarith
  then show ?thesis using True by (simp add: slice_bound_def)
next
  case False
  then show ?thesis by (simp add: slice_bound_def)
qed

lemma slice_stop_le: "slice_stop n e \<le> n"
  by (simp add: slice_stop_def slice_bound_le split: option.splits)

lemma py_slice_valid:
  assumes "0 \<le> s" "s \<le> t" "t \<le> int S"
  shows "py_slice S s (if s - t = 0 then None else Some (s - t)) =
           [nat s..<nat s + nat (int S - t)]"
proof (cases "s = t")
  case True
  have "min (nat t) S = nat t" using assms by linarith
  moreover have "nat t + nat (int S - t) = S" using assms by linarith
  ultimately show ?thesis
    using True assms by (simp add: py_slice_def slice_bound_def slice_stop_def)
next
  case False
  have "min (nat s) S = nat s" using assms by linarith
  moreover have "nat (max 0 (s - t + int S)) = nat s + nat (int S - t)" using assms by linarith
  ultimately show ?thesis
    using False assms by (simp add: py_slice_def slice_bound_def slice_stop_def)
qed

lemma assign_slice_exact:
  assumes "length pre = nat r" "0 \<le> r" "0 \<le> n" "length vals = nat n" "nat n \<le> length post"
  shows "assign_slice (pre @ post) r (Some (r + n)) vals = Inr (pre @ vals @ drop (nat n) post)"
proof -
  have lo: "slice_bound (length (pre @ post)) r = nat r"
    using assms by (simp add: slice_bound_def)
  have hi: "slice_stop (length (pre @ post)) (Some (r + n)) = nat r + nat n"
    using assms by (simp add: slice_bound_def slice_stop_def nat_add_distrib)
  show ?thesis
    unfolding assign_slice_def Let_def lo hi using assms by simp
qed

lemma assign_slice_length:
  assumes "assign_slice xs a b vals = Inr ys"
  shows "length ys = length xs"
proof -
  have "slice_bound (length xs) a + (slice_stop (length xs) b - slice_bound (length xs) a) \<le> length xs"
    using slice_bound_le [of "length xs" a] slice_stop_le [of "length xs" b] by linarith
  then show ?thesis
    using assms by (auto simp: assign_slice_def Let_def split: if_splits)
qed

lemma getitem_valid:
  assumes "shape d = [P, S, R]" "py_index P p = Some p'" "rep < R"
    and "0 \<le> s" "s \<le> t" "t \<le> int S"
  shows "getitem d p s (if s - t = 0 then None else Some (s - t)) (int rep) =
           Inr (segment d p' (nat s) (nat (int S - t)) rep)"
proof -
  have "py_index R (int rep) = Some rep"
    using assms by (simp add: py_index_def)
  then show ?thesis
    using assms py_slice_valid [OF assms(4-6)]
    by (simp add: getitem_def ndim_def segment_def del: upt_Suc)
qed

lemma length_segment [simp]: "length (segment d p s n r) = n"
  by (simp add: segment_def)

lemma retrieve_replications_valid:
  assumes "priv_data ds = Some d" "shape d = [P, S, R]" "py_index P p = Some p'"
    and "0 \<le> s" "s \<le> t" "t \<le> int S"
    and "\<forall>rep \<in> set order. rep < R"
    and "i < length (cols m)" "cols m ! i = pre @ post" "length pre = nat r" "0 \<le> r"
    and "length order * nat (int S - t) \<le> length post"
  shows "retrieve_replications ds (p, s) (if s - t = 0 then None else Some (s - t)) (int S - t) i
           order r m =
         Inr (m\<lparr>cols := (cols m)[i := pre @ concat (map (segment d p' (nat s) (nat (int S - t))) order)
                                     @ drop (length order * nat (int S - t)) post]\<rparr>)"
  using assms(7-)
proof (induction order arbitrary: r m pre post)
  case Nil
  then show ?case by (simp add: list_update_same_conv [THEN iffD2])
next
  case (Cons rep order)
  let ?n = "int S - t"
  let ?vals = "segment d p' (nat s) (nat ?n) rep"
  have n0: "0 \<le> ?n" using assms by simp
  have g: "getitem d p s (if s - t = 0 then None else Some (s - t)) (int rep) = Inr ?vals"
    using getitem_valid [OF assms(2,3) _ assms(4-6)] Cons.prems by simp
  have le: "nat ?n \<le> length post" using Cons.prems by simp
  have a: "assign_slice (pre @ post) r (Some (r + ?n)) ?vals = Inr (pre @ ?vals @ drop (nat ?n) post)"
    by (rule assign_slice_exact) (use Cons.prems n0 le in simp_all)
  let ?m' = "m\<lparr>cols := (cols m)[i := (pre @ ?vals) @ drop (nat ?n) post]\<rparr>"
  have s: "setitem_col m r (r + ?n) i ?vals = Inr ?m'"
    using Cons.prems a by (simp add: setitem_col_def)
  have ih: "retrieve_replications ds (p, s) (if s - t = 0 then None else Some (s - t)) ?n i
           order (r + ?n) ?m' =
         Inr (?m'\<lparr>cols := (cols ?m')[i := (pre @ ?vals) @ concat (map (segment d p' (nat s) (nat ?n)) order)
                                     @ drop (length order * nat ?n) (drop (nat ?n) post)]\<rparr>)"
    by (rule Cons.IH) (use Cons.prems n0 in \<open>simp_all add: nat_add_distrib\<close>)
  show ?case
    using g s ih assms(1) by (simp add: data_getter_def add.commute)
qed


lemma segment_nan_free:
  assumes "nan_free d" "shape d = [P, S, R]" "p < P" "r < R" "s + n \<le> S"
  shows "\<not> list_ex isnan (segment d p s n r)"
  using assms by (auto simp: nan_free_def segment_def list_ex_iff list_all_iff)

lemma py_index_valid:
  assumes "- int P \<le> p" "p < int P"
  shows "\<exists>p'. py_index P p = Some p' \<and> p' < P"
  using assms by (auto simp: py_index_def)

lemma column_nan_free:
  assumes "nan_free d" "shape d = [P, S, R]" "valid_variable P t idx" "t \<le> int S"
    and "\<forall>rep \<in> set order. rep < R"
  shows "\<not> list_ex isnan (column_of d P (nat (int S - t)) order idx)"
proof -
  have "- int P \<le> fst idx" "fst idx < int P" using assms(3) by (simp_all add: valid_variable_def)
  from py_index_valid [OF this]
  obtain p' where p': "py_index P (fst idx) = Some p'" "p' < P" by blast
  have le: "nat (snd idx) + nat (int S - t) \<le> S"
    using assms(3,4) unfolding valid_variable_def by linarith
  have "\<not> list_ex isnan (segment d p' (nat (snd idx)) (nat (int S - t)) rep)" if "rep \<in> set order" for rep
    using segment_nan_free [OF assms(1,2) p'(2) _ le] assms(5) that by blast
  then show ?thesis
    using p' by (auto simp: column_of_def list_ex_iff)
qed

lemma retrieve_valid:
  assumes "priv_data ds = Some d" "shape d = [P, S, R]" "0 \<le> t" "t \<le> int S"
    and "\<forall>rep \<in> set order. rep < R"
    and "list_all (valid_variable P t) idx_list"
    and "cols m = finished @ todo" "length finished = i" "length todo = length idx_list"
    and "\<forall>c \<in> set todo. length c = length order * nat (int S - t)"
    and "\<forall>idx \<in> set idx_list. \<not> list_ex isnan (column_of d P (nat (int S - t)) order idx)"
  shows "retrieve ds (q, t) (int S - t) order idx_list i m =
           Inr (m\<lparr>cols := finished @ map (column_of d P (nat (int S - t)) order) idx_list\<rparr>)"
  using assms(6-)
proof (induction idx_list arbitrary: i m finished todo)
  case Nil
  then show ?case by simp
next
  case (Cons idx rest)
  obtain c todo' where todo: "todo = c # todo'"
    using Cons.prems by (cases todo) simp_all
  obtain p s where idx: "idx = (p, s)" by (cases idx)
  have v: "valid_variable P t (p, s)" using Cons.prems idx by simp
  have "- int P \<le> p" "p < int P" using v by (simp_all add: valid_variable_def)
  from py_index_valid [OF this]
  obtain p' where p': "py_index P p = Some p'" "p' < P" by blast
  let ?n = "nat (int S - t)"
  let ?col = "column_of d P ?n order (p, s)"
  have col: "?col = concat (map (segment d p' (nat s) ?n) order)"
    using p' by (simp add: column_of_def)
  have i: "i < length (cols m)" "cols m ! i = [] @ c"
    using Cons.prems todo by (simp_all add: nth_append)
  have len: "length order * ?n \<le> length c" "drop (length order * ?n) c = []"
    using Cons.prems todo by simp_all
  have rr: "retrieve_replications ds (p, s) (if s - t = 0 then None else Some (s - t)) (int S - t) i
           order 0 m =
         Inr (m\<lparr>cols := (cols m)[i := [] @ concat (map (segment d p' (nat s) ?n) order)
                                     @ drop (length order * ?n) c]\<rparr>)"
    by (rule retrieve_replications_valid [OF assms(1,2) p'(1) _ _ assms(4,5) i])
       (use v len in \<open>simp_all add: valid_variable_def\<close>)
  let ?m' = "m\<lparr>cols := (finished @ [?col]) @ todo'\<rparr>"
  have upd: "(cols m)[i := ?col] = (finished @ [?col]) @ todo'"
    using Cons.prems todo by (simp add: list_update_append)
  have rr': "retrieve_replications ds (p, s) (if s - t = 0 then None else Some (s - t)) (int S - t) i
           order 0 m = Inr ?m'"
    using rr len upd col by simp
  have nan: "\<not> list_ex isnan (cols ?m' ! i)"
    using Cons.prems idx by (simp add: nth_append)
  have ih: "retrieve ds (q, t) (int S - t) order rest (Suc i) ?m' =
              Inr (?m'\<lparr>cols := (finished @ [?col]) @ map (column_of d P ?n order) rest\<rparr>)"
    by (rule Cons.IH [where todo = todo']) (use Cons.prems todo in simp_all)
  show ?case
    using rr' nan ih idx by (cases "s = t") simp_all
qed

lemma get_data_requested:
  assumes "stores (self st) d P S R"
    and "\<forall>idx \<in> set idx_list. \<not> list_ex isnan (column_of d P (nat (int S - t)) order idx)"
    and "0 \<le> t" "t \<le> int S"
    and "list_all (valid_variable P t) idx_list"
    and "(if shuffle then np_random_permutation st R else (np_arange R, st)) = (order, st1)"
    and "length order = R" "\<forall>rep \<in> set order. rep < R"
  shows "get_data st idx_list (q, t) shuffle =
           (Inr (\<lparr>nrows = nat (int S - t) * R,
                   cols = map (column_of d P (nat (int S - t)) order) idx_list\<rparr>,
                 concat (map (replicate (nat (int S - t))) order)), st1)"
proof -
  let ?n = "nat (int S - t)"
  have st: "priv_data (self st) = Some d" "shape d = [P, S, R]" "n_samples (self st) = Some S"
    "n_replications (self st) = Some R"
    using assms(1) by (simp_all add: stores_def)
  have self1: "self st1 = self st"
    using assms(6) by (auto simp: np_random_permutation_def split: if_splits)
  have chk: "list_all (\<lambda>x. snd x \<le> snd (q, t)) idx_list"
    using assms(5) by (auto simp: list_all_iff valid_variable_def)
  have nn: "\<not> (int S - t) * int R < 0" using assms(3,4) by (simp add: not_less)
  have nat_eq: "nat ((int S - t) * int R) = ?n * R"
    using assms(3,4) by (simp add: nat_mult_distrib)
  let ?m0 = "\<lparr>nrows = ?n * R,
              cols = map (\<lambda>c. map (\<lambda>r. fresh_floats st (r * length idx_list + c)) [0..<?n * R])
                       [0..<length idx_list]\<rparr>"
  have e: "np_empty2 (fresh_floats st) ((int S - t) * int R) (length idx_list) = Inr ?m0"
    using nn nat_eq by (simp add: np_empty2_def)
  have r: "retrieve (self st1) (q, t) (int S - t) order idx_list 0 ?m0 =
             Inr (?m0\<lparr>cols := [] @ map (column_of d P ?n order) idx_list\<rparr>)"
    unfolding self1
  proof (rule retrieve_valid [OF st(1,2) assms(3,4,8,5), where todo = "cols ?m0"])
    show "\<forall>idx \<in> set idx_list. \<not> list_ex isnan (column_of d P ?n order idx)"
      by (rule assms(2))
    show "cols ?m0 = [] @ cols ?m0" by simp
    show "length ([] :: float64 list list) = 0" by simp
    show "length (cols ?m0) = length idx_list" by simp
    show "\<forall>c \<in> set (cols ?m0). length c = length order * ?n"
      using assms(7) by (auto simp: mult.commute)
  qed
  have rep: "np_repeat order (int S - t) = Inr (concat (map (replicate ?n) order))"
    using assms(4) by (simp add: np_repeat_def)
  have len: "length (concat (map (replicate ?n) order)) = ?n * R"
    using assms(7) by (simp add: length_concat comp_def sum_list_triv mult.commute)
  show ?thesis
    unfolding get_data_def
    using chk st e r rep len assms(6)
    by (simp add: n_realisations_samples_def n_realisations_repl_def)
qed

lemma get_data_valid:
  assumes "stores (self st) d P S R" "nan_free d" "0 \<le> t" "t \<le> int S"
    and "list_all (valid_variable P t) idx_list"
    and "(if shuffle then np_random_permutation st R else (np_arange R, st)) = (order, st1)"
    and "length order = R" "\<forall>rep \<in> set order. rep < R"
  shows "get_data st idx_list (q, t) shuffle =
           (Inr (\<lparr>nrows = nat (int S - t) * R,
                   cols = map (column_of d P (nat (int S - t)) order) idx_list\<rparr>,
                 concat (map (replicate (nat (int S - t))) order)), st1)"
proof (rule get_data_requested [OF assms(1) _ assms(3-)])
  have sh: "shape d = [P, S, R]" using assms(1) by (simp add: stores_def)
  show "\<forall>idx \<in> set idx_list. \<not> list_ex isnan (column_of d P (nat (int S - t)) order idx)"
  proof
    fix idx assume "idx \<in> set idx_list"
    then have "valid_variable P t idx" using assms(5) by (simp add: list_all_iff)
    from column_nan_free [OF assms(2) sh this assms(4,8)]
    show "\<not> list_ex isnan (column_of d P (nat (int S - t)) order idx)" .
  qed
qed

lemma retrieved_nan_free_whole:
  assumes "nan_free d" and "shape d = [P, S, R]" and "list_all (valid_variable P t) idx_list"
    and "0 \<le> t" and "t \<le> int S"
  shows "retrieved_nan_free d P (S - nat t) R idx_list"
proof -
  have n: "nat (int S - t) = S - nat t" using assms(4,5) by linarith
  have "\<not> list_ex isnan (column_of d P (nat (int S - t)) [0..<R] idx)" if "idx \<in> set idx_list" for idx
  proof -
    from that have "valid_variable P t idx" using assms(3) by (simp add: list_all_iff)
    from column_nan_free [OF assms(1,2) this assms(5)] show ?thesis by simp
  qed
  then show ?thesis by (simp add: retrieved_nan_free_def list_all_iff n)
qed

lemma column_isnan_order:
  assumes "set order = set order'"
  shows "list_ex isnan (column_of d P n order idx) = list_ex isnan (column_of d P n order' idx)"
  using assms by (simp add: column_of_def list_ex_iff)

section \<open>Realisation counts and replication surrogates\<close>


lemma length_column_of [simp]: "length (column_of d P n order idx) = length order * n"
  by (simp add: column_of_def length_concat comp_def sum_list_triv)

lemma block_concat:
  assumes "\<forall>x \<in> set xss. length x = n" "j < length xss"
  shows "block n j (concat xss) = xss ! j"
  using assms
proof (induction xss arbitrary: j)
  case Nil
  then show ?case by simp
next
  case (Cons x xss)
  show ?case
  proof (cases j)
    case 0
    then show ?thesis using Cons.prems by (simp add: block_def)
  next
    case (Suc k)
    have "block n k (concat xss) = xss ! k"
      using Cons.IH [of k] Cons.prems Suc by simp
    then show ?thesis
      using Cons.prems Suc by (simp add: block_def)
  qed
qed

lemma count_list_replicate_self: "count_list (replicate n x) y = (if x = y then n else 0)"
  by (induction n) auto

lemma count_list_concat_replicate:
  "count_list (concat (map (replicate n) xs)) r = n * count_list xs r"
  by (induction xs) (auto simp: count_list_append count_list_replicate_self)

lemma permutation_facts:
  assumes "mset xs = mset [0..<n]"
  shows "length xs = n" "\<forall>x \<in> set xs. x < n" "\<forall>r < n. count_list xs r = 1"
proof -
  show "length xs = n" using assms by (metis length_upt diff_zero size_mset)
  have "set xs = set [0..<n]" using assms by (rule mset_eq_setD)
  then show "\<forall>x \<in> set xs. x < n" by simp
  have "count_list xs r = count (mset [0..<n]) r" for r
    using assms by (metis count_mset)
  moreover have "count (mset [0..<n]) r = (if r \<in> set [0..<n] then 1 else 0)" for r
    using distinct_upt [of 0 n] unfolding distinct_count_atmost_1 by blast
  ultimately show "\<forall>r < n. count_list xs r = 1"
    by simp
qed

text \<open>
  Claim C1 as it is written asks nothing of the variables beyond their sample offsets, and
  nothing of the stored values. On the sequential data, with current value \<open>(1, 3)\<close>, a
  variable of process 5 is refused with IndexError and a variable at sample \<open>-1\<close> with
  numpy's shape error; on data that hold NaN the assertion after the retrieval fails. In
  none of the three cases are any rows returned.
\<close>

theorem realisation_count_counterexample:
  "n_samples (self sequential_state) = Some 4 \<and> n_replications (self sequential_state) = Some 3
   \<and> fst (get_realisations sequential_state (1, 3) [(5, 0)]) =
       Inl (IndexError
         ''You tried to access variable {0} in a data set with {1} processes and {2} samples.'')
   \<and> fst (get_realisations sequential_state (1, 3) [(0, - 1)]) =
       Inl (ValueError ''could not broadcast input array'')
   \<and> fst (get_realisations nan_state (1, 3) [(0, 0)]) =
       Inl (AssertionError ''There are nans in the retrieved realisations.'')"
  by (simp add: sequential_state_def nan_state_def sequential_array_def get_realisations_def get_data_def
      n_realisations_samples_def n_realisations_repl_def np_empty2_def np_arange_def
      data_getter_def getitem_def ndim_def py_index_def py_slice_def slice_bound_def
      slice_stop_def setitem_col_def assign_slice_def reraise_def isnan_def upt_rec)


text \<open>
  Claim C1, amended. The object holds an array of \<open>P\<close> processes, \<open>S\<close> samples and \<open>R\<close>
  replications, the current value is at sample \<open>t\<close> with \<open>0 \<le> t \<le> S\<close>, and the index
  list is not empty and names only processes that numpy accepts for \<open>P\<close> processes
  (from \<open>-P\<close> to \<open>P - 1\<close>) at samples from 0 to \<open>t\<close>, and none of the values that the
  request reads is NaN. Then \<^verbatim>\<open>get_realisations\<close>
  returns, in an unchanged state, an array of \<open>(S - t) * R\<close> rows with one column per
  variable, and a replication index of as many entries.
\<close>

theorem realisation_count:
  assumes "stores (self st) d P S R" and "retrieved_nan_free d P (S - nat t) R idx_list"
    and "0 \<le> t" and "t \<le> int S"
    and "idx_list \<noteq> []" and "list_all (valid_variable P t) idx_list"
  shows "\<exists>m ridx. get_realisations st (p, t) idx_list = (Inr (m, ridx), st)
           \<and> nrows m = (S - nat t) * R
           \<and> length (cols m) = length idx_list
           \<and> list_all (\<lambda>c. length c = (S - nat t) * R) (cols m)
           \<and> length ridx = (S - nat t) * R"
proof -
  have n: "nat (int S - t) = S - nat t" using assms(3,4) by linarith
  have "get_data st idx_list (p, t) False =
          (Inr (\<lparr>nrows = nat (int S - t) * R,
                  cols = map (column_of d P (nat (int S - t)) [0..<R]) idx_list\<rparr>,
                concat (map (replicate (nat (int S - t))) [0..<R])), st)"
    by (rule get_data_requested [OF assms(1) _ assms(3,4,6)])
       (use assms(2) in \<open>simp_all add: np_arange_def retrieved_nan_free_def list_all_iff n\<close>)
  then show ?thesis
    unfolding get_realisations_def n
    by (simp add: list_all_iff length_concat comp_def sum_list_triv mult.commute)
qed

lemma nan_free_sequential_array: "nan_free sequential_array"
  by (simp add: nan_free_def sequential_array_def isnan_def list_all_iff)

lemma stores_sequential_state: "stores (self sequential_state) sequential_array 2 4 3"
  by (simp add: stores_def sequential_state_def sequential_array_def)

lemma valid_random_source_sequential_state: "valid_random_source sequential_state"
  by (simp add: valid_random_source_def sequential_state_def)

theorem realisation_count_witness:
  "stores (self sequential_state) sequential_array 2 4 3
   \<and> retrieved_nan_free sequential_array 2 (4 - nat 3) 3 [(1, 0), (1, 1), (1, 2)]
   \<and> (0::int) \<le> 3 \<and> (3::int) \<le> int 4 \<and> [(1::int, 0::int), (1, 1), (1, 2)] \<noteq> []
   \<and> list_all (valid_variable 2 3) [(1, 0), (1, 1), (1, 2)]
   \<and> (\<exists>m ridx. get_realisations sequential_state (1, 3) [(1, 0), (1, 1), (1, 2)] =
                   (Inr (m, ridx), sequential_state)
         \<and> nrows m = 3 \<and> length (cols m) = 3 \<and> length ridx = 3)"
proof -
  have h3: "(0::int) \<le> 3" and h4: "(3::int) \<le> int 4"
    and h5: "[(1::int, 0::int), (1, 1), (1, 2)] \<noteq> []" by simp_all
  have h6: "list_all (valid_variable 2 3) [(1, 0), (1, 1), (1, 2)]"
    by (simp add: valid_variable_def)
  have sh: "shape sequential_array = [2, 4, 3]" by (simp add: sequential_array_def)
  have h2: "retrieved_nan_free sequential_array 2 (4 - nat 3) 3 [(1, 0), (1, 1), (1, 2)]"
    by (rule retrieved_nan_free_whole [OF nan_free_sequential_array sh h6 h3]) simp
  show ?thesis
    using realisation_count [OF stores_sequential_state h2 h3 h4 h5 h6, of 1]
      stores_sequential_state h2 h6
    by auto
qed

text \<open>
  Claim C2. A valid call is a request as above (the index list may be empty) with a
  random source that returns permutations. For a valid call and a random source that
  returns permutations, \<^verbatim>\<open>permute_replications\<close> returns a block permutation of what
  \<^verbatim>\<open>get_realisations\<close> returns: with \<open>\<pi>\<close> the permutation of \<open>0, \<dots>, R - 1\<close> that was drawn,
  the \<open>j\<close>-th group of \<open>S - t\<close> rows of every column is the group of replication \<open>\<pi> j\<close> of
  the unpermuted column, in the same order, and the replication index is \<open>\<pi> j\<close> repeated
  \<open>S - t\<close> times for each \<open>j\<close> in turn, so that each replication occurs exactly \<open>S - t\<close>
  times.
\<close>

theorem permute_replications_block_permutation:
  assumes "stores (self st) d P S R" and "retrieved_nan_free d P (S - nat t) R idx_list"
    and "0 \<le> t" and "t \<le> int S"
    and "list_all (valid_variable P t) idx_list" and "valid_random_source st"
  shows "\<exists>m ridx m' ridx' st' \<pi>.
           get_realisations st (p, t) idx_list = (Inr (m, ridx), st)
         \<and> permute_replications st (p, t) idx_list = (Inr (m', ridx'), st')
         \<and> mset \<pi> = mset [0..<R]
         \<and> nrows m' = nrows m \<and> length (cols m') = length (cols m)
         \<and> (\<forall>j < R. \<forall>c < length idx_list.
               block (S - nat t) j (cols m' ! c) = block (S - nat t) (\<pi> ! j) (cols m ! c))
         \<and> ridx' = concat (map (replicate (S - nat t)) \<pi>)
         \<and> (\<forall>r < R. count_list ridx' r = S - nat t)"
proof -
  let ?n = "nat (int S - t)"
  let ?pi = "random_source st (draws st) R"
  let ?st' = "st\<lparr>draws := Suc (draws st)\<rparr>"
  have n: "?n = S - nat t" using assms(3,4) by linarith
  have pi: "mset ?pi = mset [0..<R]"
    using assms(6) by (simp add: valid_random_source_def)
  note pf = permutation_facts [OF pi]
  have nat_order: "\<forall>idx \<in> set idx_list. \<not> list_ex isnan (column_of d P ?n [0..<R] idx)"
    using assms(2) by (simp add: retrieved_nan_free_def list_all_iff n)
  have "set ?pi = set [0..<R]" using pi by (rule mset_eq_setD)
  then have pi_order: "\<forall>idx \<in> set idx_list. \<not> list_ex isnan (column_of d P ?n ?pi idx)"
    using nat_order column_isnan_order [of ?pi "[0..<R]" d P ?n] by blast
  have g: "get_data st idx_list (p, t) False =
          (Inr (\<lparr>nrows = ?n * R, cols = map (column_of d P ?n [0..<R]) idx_list\<rparr>,
                concat (map (replicate ?n) [0..<R])), st)"
    by (rule get_data_requested [OF assms(1) nat_order assms(3,4,5)]) (simp_all add: np_arange_def)
  have s: "get_data st idx_list (p, t) True =
          (Inr (\<lparr>nrows = ?n * R, cols = map (column_of d P ?n ?pi) idx_list\<rparr>,
                concat (map (replicate ?n) ?pi)), ?st')"
    by (rule get_data_requested [OF assms(1) pi_order assms(3,4,5)])
       (use pf in \<open>simp_all add: np_random_permutation_def\<close>)
  have blocks: "block ?n j (column_of d P ?n ?pi idx) = block ?n (?pi ! j) (column_of d P ?n [0..<R] idx)"
    if "j < R" for j idx
  proof -
    let ?seg = "segment d (the (py_index P (fst idx))) (nat (snd idx)) ?n"
    have lt: "?pi ! j < R" using pf that by (metis nth_mem)
    have "block ?n j (concat (map ?seg ?pi)) = map ?seg ?pi ! j"
      by (rule block_concat) (use pf that in simp_all)
    moreover have "block ?n (?pi ! j) (concat (map ?seg [0..<R])) = map ?seg [0..<R] ! (?pi ! j)"
      by (rule block_concat) (use lt in simp_all)
    ultimately show ?thesis
      using pf that lt by (simp add: column_of_def)
  qed
  have cnt: "\<forall>r < R. count_list (concat (map (replicate ?n) ?pi)) r = ?n"
    using pf by (simp add: count_list_concat_replicate)
  let ?m = "\<lparr>nrows = ?n * R, cols = map (column_of d P ?n [0..<R]) idx_list\<rparr>"
  let ?m' = "\<lparr>nrows = ?n * R, cols = map (column_of d P ?n ?pi) idx_list\<rparr>"
  have "get_realisations st (p, t) idx_list = (Inr (?m, concat (map (replicate ?n) [0..<R])), st)
         \<and> permute_replications st (p, t) idx_list = (Inr (?m', concat (map (replicate ?n) ?pi)), ?st')
         \<and> mset ?pi = mset [0..<R]
         \<and> nrows ?m' = nrows ?m \<and> length (cols ?m') = length (cols ?m)
         \<and> (\<forall>j < R. \<forall>c < length idx_list.
               block ?n j (cols ?m' ! c) = block ?n (?pi ! j) (cols ?m ! c))
         \<and> concat (map (replicate ?n) ?pi) = concat (map (replicate ?n) ?pi)
         \<and> (\<forall>r < R. count_list (concat (map (replicate ?n) ?pi)) r = ?n)"
    unfolding get_realisations_def permute_replications_def g s
    using pi blocks cnt by simp
  then show ?thesis
    unfolding n by blast
qed


theorem permute_replications_block_permutation_witness:
  "stores (self sequential_state) sequential_array 2 4 3
   \<and> retrieved_nan_free sequential_array 2 (4 - nat 2) 3 [(1, 0), (0, 2)]
   \<and> (0::int) \<le> 2 \<and> (2::int) \<le> int 4
   \<and> list_all (valid_variable 2 2) [(1, 0), (0, 2)]
   \<and> valid_random_source sequential_state
   \<and> (\<exists>m ridx m' ridx' st' \<pi>.
           get_realisations sequential_state (1, 2) [(1, 0), (0, 2)] = (Inr (m, ridx), sequential_state)
         \<and> permute_replications sequential_state (1, 2) [(1, 0), (0, 2)] = (Inr (m', ridx'), st')
         \<and> mset \<pi> = mset [0..<3]
         \<and> nrows m' = nrows m \<and> length (cols m') = length (cols m)
         \<and> (\<forall>j < 3. \<forall>c < 2. block 2 j (cols m' ! c) = block 2 (\<pi> ! j) (cols m ! c))
         \<and> ridx' = concat (map (replicate 2) \<pi>)
         \<and> (\<forall>r < 3. count_list ridx' r = 2))"
proof -
  have h3: "(0::int) \<le> 2" and h4: "(2::int) \<le> int 4" by simp_all
  have h5: "list_all (valid_variable 2 2) [(1, 0), (0, 2)]"
    by (simp add: valid_variable_def)
  have n: "4 - nat 2 = (2::nat)" "length [(1::int, 0::int), (0, 2)] = 2" by simp_all
  have sh: "shape sequential_array = [2, 4, 3]" by (simp add: sequential_array_def)
  have h2: "retrieved_nan_free sequential_array 2 (4 - nat 2) 3 [(1, 0), (0, 2)]"
    by (rule retrieved_nan_free_whole [OF nan_free_sequential_array sh h5 h3]) simp
  note c = permute_replications_block_permutation [OF stores_sequential_state
      h2 h3 h4 h5 valid_random_source_sequential_state, of 1, unfolded n]
  show ?thesis
    using stores_sequential_state h2 h3 h4 h5
      valid_random_source_sequential_state c
    by - (rule conjI | assumption)+
qed

section \<open>The shape of a successful retrieval, and boolean masks\<close>


lemma setitem_col_shape:
  assumes "setitem_col m a b i vals = Inr m'"
  shows "nrows m' = nrows m \<and> map length (cols m') = map length (cols m)"
proof (cases "i < length (cols m)")
  case False
  then show ?thesis using assms by (simp add: setitem_col_def)
next
  case True
  then obtain c where c: "assign_slice (cols m ! i) a (Some b) vals = Inr c"
    and m': "m' = m\<lparr>cols := (cols m)[i := c]\<rparr>"
    using assms by (cases "assign_slice (cols m ! i) a (Some b) vals") (auto simp: setitem_col_def)
  have "length c = length (cols m ! i)" using c by (rule assign_slice_length)
  then have "(map length (cols m))[i := length c] = map length (cols m)"
    using True by (simp add: list_update_same_conv)
  then show ?thesis using m' by (simp add: map_update)
qed

lemma retrieve_replications_shape:
  assumes "retrieve_replications ds idx ls n i order r m = Inr m'"
  shows "nrows m' = nrows m \<and> map length (cols m') = map length (cols m)"
  using assms
proof (induction order arbitrary: r m)
  case Nil
  then show ?case by simp
next
  case (Cons rep order)
  from Cons.prems obtain vals m1 where
    s: "setitem_col m r (r + n) i vals = Inr m1"
    and rest: "retrieve_replications ds idx ls n i order (r + n) m1 = Inr m'"
    by (auto split: sum.splits)
  show ?case
    using Cons.IH [OF rest] setitem_col_shape [OF s] by simp
qed

lemma retrieve_shape:
  assumes "retrieve ds cv n order idx_list i m = Inr m'"
  shows "nrows m' = nrows m \<and> map length (cols m') = map length (cols m)"
  using assms
proof (induction idx_list arbitrary: i m)
  case Nil
  then show ?case by simp
next
  case (Cons idx rest)
  from Cons.prems obtain ls m1 where
    s: "retrieve_replications ds idx ls n i order 0 m = Inr m1"
    and r: "retrieve ds cv n order rest (Suc i) m1 = Inr m'"
    by (auto simp: Let_def split: sum.splits if_splits)
  show ?case
    using Cons.IH [OF r] retrieve_replications_shape [OF s] by simp
qed

lemma get_realisations_success:
  assumes "get_realisations st cv idx_list = (Inr (m, ridx), st1)"
  shows "st1 = st"
    and "\<exists>S R. n_samples (self st) = Some S \<and> n_replications (self st) = Some R
           \<and> ridx = concat (map (replicate (nat (int S - snd cv))) [0..<R])
           \<and> nrows m = length ridx
           \<and> (\<forall>c \<in> set (cols m). length c = length ridx)
           \<and> (0 < R \<longrightarrow> snd cv \<le> int S)"
proof -
  have chk: "list_all (\<lambda>x. snd x \<le> snd cv) idx_list"
    using assms by (cases "list_all (\<lambda>x. snd x \<le> snd cv) idx_list")
      (simp_all add: get_realisations_def get_data_def)
  obtain S where S: "n_samples (self st) = Some S"
    using assms chk by (cases "n_samples (self st)")
      (auto simp: get_realisations_def get_data_def n_realisations_samples_def)
  obtain R where R: "n_replications (self st) = Some R"
    using assms chk S by (cases "n_replications (self st)")
      (auto simp: get_realisations_def get_data_def n_realisations_samples_def n_realisations_repl_def)
  let ?n = "int S - snd cv"
  have nn: "\<not> ?n * int R < 0"
    using assms chk S R by (auto simp: get_realisations_def get_data_def n_realisations_samples_def
        n_realisations_repl_def np_empty2_def split: if_splits)
  let ?m0 = "\<lparr>nrows = nat (?n * int R),
              cols = map (\<lambda>c. map (\<lambda>r. fresh_floats st (r * length idx_list + c)) [0..<nat (?n * int R)])
                       [0..<length idx_list]\<rparr>"
  have e: "np_empty2 (fresh_floats st) (?n * int R) (length idx_list) = Inr ?m0"
    using nn by (simp add: np_empty2_def)
  have g: "get_data st idx_list cv False =
      (and_then (retrieve (self st) cv ?n [0..<R] idx_list 0 ?m0)
         (\<lambda>realisations'. and_then (np_repeat [0..<R] ?n)
           (\<lambda>replications_index.
              if length replications_index \<noteq> nrows realisations'
              then Inl (AssertionError ''There seems to be a problem with the replications index.'')
              else Inr (realisations', replications_index))), st)"
    using chk S R e by (simp add: get_data_def n_realisations_samples_def n_realisations_repl_def
        np_arange_def)
  from assms g show "st1 = st" by (simp add: get_realisations_def)
  from assms g obtain m1 where
    r: "retrieve (self st) cv ?n [0..<R] idx_list 0 ?m0 = Inr m1"
    by (cases "retrieve (self st) cv ?n [0..<R] idx_list 0 ?m0") (auto simp: get_realisations_def)
  from assms g r obtain ri where
    rp: "np_repeat [0..<R] ?n = Inr ri"
    by (cases "np_repeat [0..<R] ?n") (auto simp: get_realisations_def)
  from assms g r rp have res: "m = m1" "ridx = ri" "length ri = nrows m1"
    by (auto simp: get_realisations_def split: if_splits)
  have ri: "ri = concat (map (replicate (nat ?n)) [0..<R])"
    using rp by (auto simp: np_repeat_def split: if_splits)
  have sh: "nrows m1 = nat (?n * int R)" "map length (cols m1) = map length (cols ?m0)"
    using retrieve_shape [OF r] by simp_all
  have "length c = nat (?n * int R)" if "c \<in> set (cols m1)" for c
  proof -
    from that have "length c \<in> set (map length (cols m1))" by simp
    then show ?thesis unfolding sh(2) by auto
  qed
  moreover have "0 < R \<longrightarrow> snd cv \<le> int S"
    using nn by (auto simp: not_less zero_le_mult_iff)
  ultimately show "\<exists>S R. n_samples (self st) = Some S \<and> n_replications (self st) = Some R
           \<and> ridx = concat (map (replicate (nat (int S - snd cv))) [0..<R])
           \<and> nrows m = length ridx
           \<and> (\<forall>c \<in> set (cols m). length c = length ridx)
           \<and> (0 < R \<longrightarrow> snd cv \<le> int S)"
    using S R res ri sh(1) by auto
qed

lemma count_true_eq: "count_true (map (\<lambda>x. x = r) ridx) = count_list ridx r"
  by (induction ridx) (auto simp: count_true_def)

lemma length_select_mask:
  "length msk = length xs \<Longrightarrow> length (select_mask msk xs) = count_true msk"
  by (induction msk xs rule: list_induct2) (auto simp: select_mask_def count_true_def)

lemma length_put_mask [simp]: "length (put_mask msk xs vs) = length xs"
  by (induction msk xs vs rule: put_mask.induct) simp_all

lemma select_put_same:
  "length msk = length xs \<Longrightarrow> length vs = count_true msk \<Longrightarrow>
   select_mask msk (put_mask msk xs vs) = vs"
  by (induction msk xs vs rule: put_mask.induct) (auto simp: select_mask_def count_true_def)

lemma select_put_other:
  "r \<noteq> r' \<Longrightarrow> length xs = length ridx \<Longrightarrow>
   select_mask (map (\<lambda>x. x = r') ridx) (put_mask (map (\<lambda>x. x = r) ridx) xs vs) =
   select_mask (map (\<lambda>x. x = r') ridx) xs"
proof (induction ridx arbitrary: xs vs)
  case Nil
  then show ?case by (simp add: select_mask_def)
next
  case (Cons a ridx)
  then obtain x xs' where xs: "xs = x # xs'" by (cases xs) simp_all
  show ?case
  proof (cases vs)
    case Nil
    then show ?thesis using Cons xs by (cases "a = r") (auto simp: select_mask_def)
  next
    case (Cons v vs')
    then show ?thesis using Cons.IH [of xs'] Cons.prems xs
      by (cases "a = r") (auto simp: select_mask_def)
  qed
qed

section \<open>Applying one permutation to every replication\<close>


lemma map2_map_same: "map2 f xs (map g xs) = map (\<lambda>x. f x (g x)) xs"
  by (induction xs) simp_all

lemma py_index_nat: "0 \<le> p \<Longrightarrow> p < int n \<Longrightarrow> py_index n p = Some (nat p)"
  by (simp add: py_index_def)

text \<open>One replication of the loop of \<open>apply_permutation\<close>.\<close>

lemma apply_permutation_step:
  assumes "nrows m = length ridx" and "\<forall>c \<in> set (cols m). length c = length ridx"
    and "length pidx = length ridx" and "count_list ridx rep = length perm"
    and "\<forall>p \<in> set perm. 0 \<le> p \<and> p < int (length perm)"
  shows "apply_permutation ridx perm (rep # rest) m pidx =
           apply_permutation ridx perm rest
             (m\<lparr>cols := map (\<lambda>c. put_mask (map (\<lambda>x. x = rep) ridx) c
                                 (map (\<lambda>p. rows_of ridx rep c ! nat p) perm)) (cols m)\<rparr>)
             (put_mask (map (\<lambda>x. x = rep) ridx) pidx (map (\<lambda>p. Finite (of_int p)) perm))"
proof -
  let ?msk = "map (\<lambda>x. x = rep) ridx"
  let ?d = "\<lparr>nrows = count_true ?msk, cols = map (select_mask ?msk) (cols m)\<rparr>"
  have ct: "count_true ?msk = length perm" using assms(4) by (simp add: count_true_eq)
  have g: "getitem_rows m ?msk = Inr ?d" using assms(1) by (simp add: getitem_rows_def)
  have ok: "list_all (\<lambda>p. py_index (nrows ?d) p \<noteq> None) perm"
    using assms(5) ct by (auto simp: list_all_iff py_index_nat)
  have ix: "map (\<lambda>p. c ! the (py_index (length perm) p)) perm = map (\<lambda>p. c ! nat p) perm" for c :: "float64 list"
    using assms(5) by (auto simp: py_index_nat)
  let ?dp = "\<lparr>nrows = length perm,
              cols = map (\<lambda>c. map (\<lambda>p. c ! nat p) perm) (map (select_mask ?msk) (cols m))\<rparr>"
  have t: "take_rows ?d perm = Inr ?dp"
    using ok ct ix by (simp add: take_rows_def comp_def)
  have cols: "map2 (put_mask ?msk) (cols m) (cols ?dp) =
                map (\<lambda>c. put_mask ?msk c (map (\<lambda>p. rows_of ridx rep c ! nat p) perm)) (cols m)"
    using map2_map_same [of "put_mask ?msk" "cols m" "\<lambda>c. map (\<lambda>p. select_mask ?msk c ! nat p) perm"]
    by (simp add: comp_def rows_of_def)
  have s: "setitem_rows m ?msk ?dp =
             Inr (m\<lparr>cols := map (\<lambda>c. put_mask ?msk c (map (\<lambda>p. rows_of ridx rep c ! nat p) perm)) (cols m)\<rparr>)"
    using assms(1) ct cols by (simp add: setitem_rows_def)
  have a: "assign_mask ?msk pidx (map (\<lambda>p. Finite (of_int p)) perm) =
             Inr (put_mask ?msk pidx (map (\<lambda>p. Finite (of_int p)) perm))"
    using assms(3) ct by (simp add: assign_mask_def)
  show ?thesis
    using g t s a by (simp add: Let_def)
qed

lemma rows_of_put_same:
  assumes "length xs = length ridx" "length vs = count_list ridx r"
  shows "rows_of ridx r (put_mask (map (\<lambda>x. x = r) ridx) xs vs) = vs"
  unfolding rows_of_def using assms by (simp add: select_put_same count_true_eq)

lemma rows_of_put_other:
  assumes "r \<noteq> r'" "length xs = length ridx"
  shows "rows_of ridx r' (put_mask (map (\<lambda>x. x = r) ridx) xs vs) = rows_of ridx r' xs"
  unfolding rows_of_def using assms by (rule select_put_other)

lemma apply_permutation_valid:
  assumes "distinct reps" and "\<forall>r \<in> set reps. count_list ridx r = length perm"
    and "\<forall>p \<in> set perm. 0 \<le> p \<and> p < int (length perm)"
    and "nrows m = length ridx" and "\<forall>c \<in> set (cols m). length c = length ridx"
    and "length pidx = length ridx"
  shows "\<exists>m' pidx'. apply_permutation ridx perm reps m pidx = Inr (m', pidx')
           \<and> nrows m' = nrows m \<and> length (cols m') = length (cols m)
           \<and> length pidx' = length ridx
           \<and> (\<forall>r. \<forall>c < length (cols m). rows_of ridx r (cols m' ! c) =
                 (if r \<in> set reps then map (\<lambda>p. rows_of ridx r (cols m ! c) ! nat p) perm
                  else rows_of ridx r (cols m ! c)))
           \<and> (\<forall>r. rows_of ridx r pidx' =
                 (if r \<in> set reps then map (\<lambda>p. Finite (of_int p)) perm else rows_of ridx r pidx))"
  using assms(1,2,4,5,6)
proof (induction reps arbitrary: m pidx)
  case Nil
  then show ?case by simp
next
  case (Cons rep rest)
  let ?msk = "map (\<lambda>x. x = rep) ridx"
  let ?new = "\<lambda>c. put_mask ?msk c (map (\<lambda>p. rows_of ridx rep c ! nat p) perm)"
  let ?m1 = "m\<lparr>cols := map ?new (cols m)\<rparr>"
  let ?pidx1 = "put_mask ?msk pidx (map (\<lambda>p. Finite (of_int p)) perm)"
  have cnt: "count_list ridx rep = length perm" using Cons.prems by simp
  have step: "apply_permutation ridx perm (rep # rest) m pidx =
                apply_permutation ridx perm rest ?m1 ?pidx1"
    by (rule apply_permutation_step) (use Cons.prems assms(3) cnt in simp_all)
  have "\<exists>m' pidx'. apply_permutation ridx perm rest ?m1 ?pidx1 = Inr (m', pidx')
           \<and> nrows m' = nrows ?m1 \<and> length (cols m') = length (cols ?m1)
           \<and> length pidx' = length ridx
           \<and> (\<forall>r. \<forall>c < length (cols ?m1). rows_of ridx r (cols m' ! c) =
                 (if r \<in> set rest then map (\<lambda>p. rows_of ridx r (cols ?m1 ! c) ! nat p) perm
                  else rows_of ridx r (cols ?m1 ! c)))
           \<and> (\<forall>r. rows_of ridx r pidx' =
                 (if r \<in> set rest then map (\<lambda>p. Finite (of_int p)) perm else rows_of ridx r ?pidx1))"
    by (rule Cons.IH) (use Cons.prems in auto)
  then obtain m' pidx' where
    res: "apply_permutation ridx perm rest ?m1 ?pidx1 = Inr (m', pidx')"
    and sh: "nrows m' = nrows m" "length (cols m') = length (cols m)" "length pidx' = length ridx"
    and rows: "\<And>r c. c < length (cols m) \<Longrightarrow> rows_of ridx r (cols m' ! c) =
                 (if r \<in> set rest then map (\<lambda>p. rows_of ridx r (?new (cols m ! c)) ! nat p) perm
                  else rows_of ridx r (?new (cols m ! c)))"
    and prow: "\<And>r. rows_of ridx r pidx' =
                 (if r \<in> set rest then map (\<lambda>p. Finite (of_int p)) perm else rows_of ridx r ?pidx1)"
    by auto
  have same: "rows_of ridx rep (?new c) = map (\<lambda>p. rows_of ridx rep c ! nat p) perm"
    if "length c = length ridx" for c
    by (rule rows_of_put_same) (use that cnt in simp_all)
  have other: "rows_of ridx r (?new c) = rows_of ridx r c"
    if "length c = length ridx" "r \<noteq> rep" for c r
    by (rule rows_of_put_other) (use that in simp_all)
  have lenc: "length (cols m ! c) = length ridx" if "c < length (cols m)" for c
    using Cons.prems that by simp
  have notin: "rep \<notin> set rest" using Cons.prems by simp
  have r1: "rows_of ridx r (cols m' ! c) =
              (if r \<in> set (rep # rest) then map (\<lambda>p. rows_of ridx r (cols m ! c) ! nat p) perm
               else rows_of ridx r (cols m ! c))" if "c < length (cols m)" for r c
  proof (cases "r = rep")
    case True
    then show ?thesis using rows [OF that, of r] same [OF lenc [OF that]] notin by simp
  next
    case False
    then show ?thesis using rows [OF that, of r] other [OF lenc [OF that] False] by simp
  qed
  have r2: "rows_of ridx r pidx' =
              (if r \<in> set (rep # rest) then map (\<lambda>p. Finite (of_int p)) perm else rows_of ridx r pidx)" for r
  proof (cases "r = rep")
    case True
    have "rows_of ridx rep ?pidx1 = map (\<lambda>p. Finite (of_int p)) perm"
      by (rule rows_of_put_same) (use Cons.prems cnt in simp_all)
    then show ?thesis using prow [of r] True notin by simp
  next
    case False
    have "rows_of ridx r ?pidx1 = rows_of ridx r pidx"
      by (rule rows_of_put_other) (use Cons.prems False in auto)
    then show ?thesis using prow [of r] False by simp
  qed
  show ?case
    unfolding step res using sh r1 r2 by blast
qed

section \<open>Building the permutation\<close>


lemma shifted_draw:
  assumes "mset draw = mset [0..<n]" and "0 \<le> i"
  shows "mset (map (\<lambda>x. int x + i) draw) = mset (map int [nat i..<nat i + n])"
proof -
  have "map (\<lambda>x. int x + i) [0..<n] = map int (map (\<lambda>x. x + nat i) [0..<n])"
    using assms(2) by simp
  also have "map (\<lambda>x. x + nat i) [0..<n] = [nat i..<nat i + n]"
    by (simp add: map_add_upt add.commute)
  finally have "map (\<lambda>x. int x + i) [0..<n] = map int [nat i..<nat i + n]" .
  moreover have "mset (map (\<lambda>x. int x + i) draw) = mset (map (\<lambda>x. int x + i) [0..<n])"
    using assms(1) by (metis mset_map)
  ultimately show ?thesis by simp
qed

lemma same_block:
  assumes "0 < b" and "b dvd i" and "0 \<le> x" and "x < b"
  shows "(x + i) div b = i div (b :: int)"
proof -
  from assms(2) obtain k where "i = b * k" ..
  then show ?thesis using assms(1,3,4) by simp
qed

lemma permute_blocks_valid:
  assumes "valid_random_source st" and "1 < b" and "0 \<le> i" and "b dvd i"
    and "length pre = nat i" and "length ps * nat b \<le> length post"
  shows "\<exists>new st'. permute_blocks ps b st (pre @ post) i =
             (Inr (pre @ new @ drop (length ps * nat b) post, i + int (length ps) * b), st')
           \<and> length new = length ps * nat b
           \<and> mset new = mset (map int [nat i..<nat i + length ps * nat b])
           \<and> (\<forall>j < length new. new ! j div b = (i + int j) div b)
           \<and> self st' = self st \<and> random_source st' = random_source st
           \<and> fresh_floats st' = fresh_floats st \<and> stdout st' = stdout st"
  using assms(1,3-)
proof (induction ps arbitrary: st pre post i)
  case Nil
  then show ?case by simp
next
  case (Cons p ps)
  let ?draw = "random_source st (draws st) (nat b)"
  let ?st1 = "st\<lparr>draws := Suc (draws st)\<rparr>"
  let ?vals = "map (\<lambda>x. int x + i) ?draw"
  have draw: "mset ?draw = mset [0..<nat b]"
    using Cons.prems(1) by (simp add: valid_random_source_def)
  note pf = permutation_facts [OF draw]
  have le: "nat b \<le> length post" using Cons.prems by simp
  have a: "assign_slice (pre @ post) i (Some (i + b)) ?vals = Inr (pre @ ?vals @ drop (nat b) post)"
    by (rule assign_slice_exact) (use Cons.prems assms(2) pf le in simp_all)
  have v1: "valid_random_source ?st1"
    using Cons.prems(1) by (simp add: valid_random_source_def)
  have "\<exists>new st'. permute_blocks ps b ?st1 ((pre @ ?vals) @ drop (nat b) post) (i + b) =
             (Inr ((pre @ ?vals) @ new @ drop (length ps * nat b) (drop (nat b) post),
                   (i + b) + int (length ps) * b), st')
           \<and> length new = length ps * nat b
           \<and> mset new = mset (map int [nat (i + b)..<nat (i + b) + length ps * nat b])
           \<and> (\<forall>j < length new. new ! j div b = ((i + b) + int j) div b)
           \<and> self st' = self ?st1 \<and> random_source st' = random_source ?st1
           \<and> fresh_floats st' = fresh_floats ?st1 \<and> stdout st' = stdout ?st1"
    by (rule Cons.IH [OF v1]) (use Cons.prems assms(2) pf in \<open>simp_all add: nat_add_distrib\<close>)
  then obtain new st' where
    res: "permute_blocks ps b ?st1 ((pre @ ?vals) @ drop (nat b) post) (i + b) =
             (Inr ((pre @ ?vals) @ new @ drop (length ps * nat b) (drop (nat b) post),
                   (i + b) + int (length ps) * b), st')"
    and len: "length new = length ps * nat b"
    and ms: "mset new = mset (map int [nat (i + b)..<nat (i + b) + length ps * nat b])"
    and blk: "\<forall>j < length new. new ! j div b = ((i + b) + int j) div b"
    and st': "self st' = self st" "random_source st' = random_source st"
      "fresh_floats st' = fresh_floats st" "stdout st' = stdout st"
    by auto
  have nb: "nat (i + b) = nat i + nat b" using Cons.prems assms(2) by (simp add: nat_add_distrib)
  have ms1: "mset ?vals = mset (map int [nat i..<nat i + nat b])"
    by (rule shifted_draw [OF draw Cons.prems(2)])
  have "[nat i..<nat i + (nat b + length ps * nat b)] =
          [nat i..<nat i + nat b] @ [nat i + nat b..<nat i + nat b + length ps * nat b]"
    using upt_add_eq_append [of "nat i" "nat i + nat b" "length ps * nat b"] by (simp add: add.assoc)
  then have ms2: "mset (?vals @ new) = mset (map int [nat i..<nat i + length (p # ps) * nat b])"
    using ms ms1 nb by simp
  have blk2: "(?vals @ new) ! j div b = (i + int j) div b" if "j < length (?vals @ new)" for j
  proof (cases "j < nat b")
    case True
    have x: "?draw ! j < nat b" using pf True by (metis nth_mem)
    have "(int (?draw ! j) + i) div b = i div b"
      by (rule same_block) (use assms(2) Cons.prems x in simp_all)
    moreover have "(int j + i) div b = i div b"
      by (rule same_block) (use assms(2) Cons.prems True in simp_all)
    ultimately show ?thesis using True pf by (simp add: nth_append add.commute)
  next
    case False
    then have j: "j - nat b < length new" using that pf by simp
    have "i + b + int (j - nat b) = i + int j" using False assms(2) by simp
    then show ?thesis using False pf blk j by (simp add: nth_append)
  qed
  have eq: "permute_blocks (p # ps) b st (pre @ post) i =
              (Inr (pre @ (?vals @ new) @ drop (length (p # ps) * nat b) post,
                    i + int (length (p # ps)) * b), st')"
    using a res by (simp add: np_random_permutation_def algebra_simps)
  show ?case
    using eq len pf ms2 blk2 st' by (intro exI [of _ "?vals @ new"] exI [of _ st']) simp
qed

lemma create_permutation_whole:
  assumes "valid_random_source st" and "0 \<le> n"
  shows "\<exists>perm st'. create_permutation st n n = (Inr perm, st')
           \<and> length perm = nat n \<and> mset perm = mset (map int [0..<nat n])
           \<and> self st' = self st \<and> fresh_floats st' = fresh_floats st"
proof -
  let ?draw = "random_source st (draws st) (nat n)"
  have draw: "mset ?draw = mset [0..<nat n]"
    using assms(1) by (simp add: valid_random_source_def)
  note pf = permutation_facts [OF draw]
  have "mset (map int ?draw) = mset (map int [0..<nat n])"
    using draw by (metis mset_map)
  then show ?thesis
    using pf by (simp add: create_permutation_def np_random_permutation_def)
qed

lemma create_permutation_blocks:
  assumes "valid_random_source st" and "1 < b" and "b < n"
  shows "\<exists>perm st'. create_permutation st n b = (Inr perm, st')
           \<and> length perm = nat n \<and> mset perm = mset (map int [0..<nat n])
           \<and> (\<forall>j < nat n. perm ! j div b = int j div b)
           \<and> self st' = self st \<and> fresh_floats st' = fresh_floats st"
proof -
  let ?q = "nat (n div b)"
  let ?perm0 = "map (fresh_ints st) [0..<nat n]"
  have n0: "0 \<le> n" "0 < b" using assms by simp_all
  have qb_int: "int (?q * nat b) = n div b * b"
    using assms n0 by (simp add: pos_imp_zdiv_nonneg_iff)
  have rem_int: "n mod b = n - n div b * b"
    by (simp add: minus_div_mult_eq_mod)
  have qb: "?q * nat b \<le> nat n"
  proof -
    have "0 \<le> n mod b" using n0 by simp
    then have "n div b * b \<le> n" using rem_int by linarith
    then show ?thesis using qb_int by linarith
  qed
  have e: "np_empty (fresh_ints st) n = Inr ?perm0" using n0 by (simp add: np_empty_def)
  have "\<exists>new st'. permute_blocks [0..<?q] b st ([] @ ?perm0) 0 =
             (Inr ([] @ new @ drop (length [0..<?q] * nat b) ?perm0, 0 + int (length [0..<?q]) * b), st')
           \<and> length new = length [0..<?q] * nat b
           \<and> mset new = mset (map int [nat 0..<nat 0 + length [0..<?q] * nat b])
           \<and> (\<forall>j < length new. new ! j div b = (0 + int j) div b)
           \<and> self st' = self st \<and> random_source st' = random_source st
           \<and> fresh_floats st' = fresh_floats st \<and> stdout st' = stdout st"
    by (rule permute_blocks_valid [OF assms(1,2)]) (use qb in simp_all)
  then obtain new st1 where
    pb: "permute_blocks [0..<?q] b st ?perm0 0 = (Inr (new @ drop (?q * nat b) ?perm0, int ?q * b), st1)"
    and len: "length new = ?q * nat b"
    and ms: "mset new = mset (map int [0..<?q * nat b])"
    and blk: "\<forall>j < length new. new ! j div b = int j div b"
    and st1: "self st1 = self st" "random_source st1 = random_source st"
      "fresh_floats st1 = fresh_floats st"
    by auto
  have v1: "valid_random_source st1" using assms(1) st1 by (simp add: valid_random_source_def)
  show ?thesis
  proof (cases "n mod b > 0")
    case False
    moreover have "0 \<le> n mod b" using n0 by simp
    ultimately have "n mod b = 0" by linarith
    then have "int (?q * nat b) = n" using qb_int rem_int by simp
    then have full: "?q * nat b = nat n" by linarith
    have "create_permutation st n b = (Inr new, st1)"
      using assms e pb False full by (simp add: create_permutation_def)
    then show ?thesis
      using len ms blk st1 full by auto
  next
    case True
    let ?rem = "n mod b"
    let ?draw = "random_source st1 (draws st1) (nat ?rem)"
    let ?st2 = "st1\<lparr>draws := Suc (draws st1)\<rparr>"
    let ?vals = "map (\<lambda>x. int x + int ?q * b) ?draw"
    let ?perm1 = "new @ drop (?q * nat b) ?perm0"
    have draw: "mset ?draw = mset [0..<nat ?rem]"
      using v1 by (simp add: valid_random_source_def)
    note pf = permutation_facts [OF draw]
    have rem_lt: "?rem < b" using n0 by simp
    have split: "nat n = ?q * nat b + nat ?rem"
      using qb_int rem_int True n0 by linarith
    have len1: "length ?perm1 = nat n" using len qb by simp
    have lo: "slice_bound (nat n) (- ?rem) = ?q * nat b"
    proof -
      have "nat (max 0 (- ?rem + int (nat n))) = ?q * nat b"
        using split True n0 by linarith
      then show ?thesis using True by (simp add: slice_bound_def)
    qed
    have tk: "take (?q * nat b) ?perm1 = new" using len by simp
    have a: "assign_slice ?perm1 (- ?rem) None ?vals = Inr (new @ ?vals)"
      unfolding assign_slice_def Let_def len1 lo slice_stop_def
      using split pf tk len1 by simp
    have cp: "create_permutation st n b = (Inr (new @ ?vals), ?st2)"
      using assms e pb True a by (simp add: create_permutation_def np_random_permutation_def)
    have "mset ?vals = mset (map int [nat (int ?q * b)..<nat (int ?q * b) + nat ?rem])"
      by (rule shifted_draw [OF draw]) (use n0 in simp)
    moreover have "nat (int ?q * b) = ?q * nat b"
      using n0 by (simp add: nat_mult_distrib)
    moreover have "[0..<?q * nat b + nat ?rem] = [0..<?q * nat b] @ [?q * nat b..<?q * nat b + nat ?rem]"
      using upt_add_eq_append [of 0 "?q * nat b" "nat ?rem"] by simp
    ultimately have ms2: "mset (new @ ?vals) = mset (map int [0..<nat n])"
      using ms split by simp
    have blk2: "(new @ ?vals) ! j div b = int j div b" if "j < nat n" for j
    proof (cases "j < length new")
      case True
      then show ?thesis using blk by (simp add: nth_append)
    next
      case False
      let ?k = "j - length new"
      have k: "?k < nat ?rem" using False that split len by linarith
      have x: "?draw ! ?k < nat ?rem" using pf k by (metis nth_mem)
      have dv: "b dvd int ?q * b" by simp
      have "(int (?draw ! ?k) + int ?q * b) div b = (int ?q * b) div b"
        by (rule same_block [OF n0(2) dv]) (use x rem_lt in simp_all)
      moreover have "(int ?k + int ?q * b) div b = (int ?q * b) div b"
        by (rule same_block [OF n0(2) dv]) (use k rem_lt in simp_all)
      moreover have "int ?k + int ?q * b = int j"
        using False len n0 by (simp add: nat_mult_distrib)
      moreover have "(new @ ?vals) ! j = int (?draw ! ?k) + int ?q * b"
        using False pf(1) k by (simp add: nth_append)
      ultimately show ?thesis by simp
    qed
    have len2: "length (new @ ?vals) = nat n" using len pf(1) split by simp
    show ?thesis
      unfolding cp using ms2 blk2 st1 len2 by simp
  qed
qed

section \<open>Sample permutation on a successful retrieval\<close>


lemma permutation_range:
  assumes "mset perm = mset (map int [0..<n])"
  shows "length perm = n" and "\<forall>p \<in> set perm. 0 \<le> p \<and> p < int n"
proof -
  show "length perm = n" using assms by (metis length_map length_upt diff_zero size_mset)
  have "set perm = set (map int [0..<n])" using assms by (rule mset_eq_setD)
  then show "\<forall>p \<in> set perm. 0 \<le> p \<and> p < int n" by auto
qed

lemma mset_permuted:
  assumes "mset perm = mset (map int [0..<length xs])"
  shows "mset (map (\<lambda>p. xs ! nat p) perm) = mset xs"
proof -
  have "mset (map (\<lambda>p. xs ! nat p) perm) = mset (map (\<lambda>p. xs ! nat p) (map int [0..<length xs]))"
    using assms by (metis mset_map)
  also have "map (\<lambda>p. xs ! nat p) (map int [0..<length xs]) = map (nth xs) [0..<length xs]"
    by simp
  also have "\<dots> = xs" by (rule map_nth)
  finally show ?thesis .
qed

lemma length_rows_of:
  "length xs = length ridx \<Longrightarrow> length (rows_of ridx r xs) = count_list ridx r"
  by (simp add: rows_of_def length_select_mask count_true_eq)

lemma count_natural_index:
  "count_list (concat (map (replicate n) [0..<R])) r = (if r < R then n else 0)"
proof -
  have "count_list [0..<R] r = (if r < R then 1 else 0)"
    using permutation_facts(3) [of "[0..<R]" R] by (auto simp: count_list_0_iff)
  then show ?thesis by (simp add: count_list_concat_replicate)
qed

lemma permute_samples_valid:
  assumes "get_realisations st cv idx_list = (Inr (m, ridx), st1)"
    and "valid_random_source st"
    and "check_perm_range pr (int (count_list ridx 0)) = Inr b"
    and "b \<le> int (count_list ridx 0)"
  shows "\<exists>perm m' pidx st2 R.
           permute_samples st cv idx_list pr = (Inr (m', pidx), st2)
         \<and> n_replications (self st) = Some R
         \<and> mset perm = mset (map int [0..<count_list ridx 0])
         \<and> (b \<noteq> int (count_list ridx 0) \<longrightarrow> (\<forall>j < count_list ridx 0. perm ! j div b = int j div b))
         \<and> nrows m' = nrows m \<and> length (cols m') = length (cols m) \<and> length pidx = length ridx
         \<and> (\<forall>r. \<forall>c < length (cols m). rows_of ridx r (cols m' ! c) =
               (if r < R then map (\<lambda>p. rows_of ridx r (cols m ! c) ! nat p) perm
                else rows_of ridx r (cols m ! c)))
         \<and> (\<forall>r < R. rows_of ridx r pidx = map (\<lambda>p. Finite (of_int p)) perm)
         \<and> self st2 = self st"
proof -
  let ?n = "count_list ridx 0"
  note suc = get_realisations_success [OF assms(1)]
  from suc(2) obtain S R where
    R: "n_replications (self st) = Some R"
    and ridx: "ridx = concat (map (replicate (nat (int S - snd cv))) [0..<R])"
    and rows: "nrows m = length ridx" and colen: "\<forall>c \<in> set (cols m). length c = length ridx"
    by blast
  have st1: "st1 = st" by (rule suc(1))
  have cnt: "count_list ridx r = ?n" if "r < R" for r
    using that unfolding ridx by (simp add: count_natural_index)
  have "\<exists>perm st2. create_permutation st (int ?n) b = (Inr perm, st2)
           \<and> length perm = nat (int ?n) \<and> mset perm = mset (map int [0..<nat (int ?n)])
           \<and> (b \<noteq> int ?n \<longrightarrow> (\<forall>j < nat (int ?n). perm ! j div b = int j div b))
           \<and> self st2 = self st \<and> fresh_floats st2 = fresh_floats st"
  proof (cases "b = int ?n")
    case True
    show ?thesis
      using create_permutation_whole [OF assms(2), of "int ?n"] True by auto
  next
    case False
    then have lt: "b < int ?n" using assms(4) by simp
    have "1 < b" using assms(3) False
      by (cases pr) (auto simp: check_perm_range_def split: if_splits)
    from create_permutation_blocks [OF assms(2) this lt] False show ?thesis by auto
  qed
  then obtain perm st2 where
    cp: "create_permutation st (int ?n) b = (Inr perm, st2)"
    and ms: "mset perm = mset (map int [0..<?n])"
    and blk: "b \<noteq> int ?n \<longrightarrow> (\<forall>j < ?n. perm ! j div b = int j div b)"
    and st2: "self st2 = self st" "fresh_floats st2 = fresh_floats st"
    by auto
  note pr = permutation_range [OF ms]
  let ?pidx0 = "map (fresh_floats st2) [0..<nrows m]"
  have e: "np_empty (fresh_floats st2) (int (nrows m)) = Inr ?pidx0"
    by (simp add: np_empty_def)
  have "\<exists>m' pidx'. apply_permutation ridx perm [0..<R] m ?pidx0 = Inr (m', pidx')
           \<and> nrows m' = nrows m \<and> length (cols m') = length (cols m)
           \<and> length pidx' = length ridx
           \<and> (\<forall>r. \<forall>c < length (cols m). rows_of ridx r (cols m' ! c) =
                 (if r \<in> set [0..<R] then map (\<lambda>p. rows_of ridx r (cols m ! c) ! nat p) perm
                  else rows_of ridx r (cols m ! c)))
           \<and> (\<forall>r. rows_of ridx r pidx' =
                 (if r \<in> set [0..<R] then map (\<lambda>p. Finite (of_int p)) perm else rows_of ridx r ?pidx0))"
  proof (rule apply_permutation_valid)
    show "distinct [0..<R]" by simp
    show "\<forall>r \<in> set [0..<R]. count_list ridx r = length perm"
    proof
      fix r assume "r \<in> set [0..<R]"
      then have "r < R" by simp
      from cnt [OF this] pr(1) show "count_list ridx r = length perm" by (simp only:)
    qed
    show "\<forall>p \<in> set perm. 0 \<le> p \<and> p < int (length perm)" using pr by simp
    show "nrows m = length ridx" by (rule rows)
    show "\<forall>c \<in> set (cols m). length c = length ridx" by (rule colen)
    show "length ?pidx0 = length ridx" using rows by simp
  qed
  then obtain m' pidx' where
    ap: "apply_permutation ridx perm [0..<R] m ?pidx0 = Inr (m', pidx')"
    and sh: "nrows m' = nrows m" "length (cols m') = length (cols m)" "length pidx' = length ridx"
    and r1: "\<forall>r. \<forall>c < length (cols m). rows_of ridx r (cols m' ! c) =
                 (if r < R then map (\<lambda>p. rows_of ridx r (cols m ! c) ! nat p) perm
                  else rows_of ridx r (cols m ! c))"
    and r2: "\<forall>r < R. rows_of ridx r pidx' = map (\<lambda>p. Finite (of_int p)) perm"
    by auto
  have ps: "permute_samples st cv idx_list pr = (Inr (m', pidx'), st2)"
    using assms(1,3,4) rows cp e R st2 ap
    by (simp add: permute_samples_def st1 Let_def)
  show ?thesis
    using ps R ms blk sh r1 r2 st2(1) by blast
qed

section \<open>Sample permutation\<close>


lemma sequential_realisations:
  "get_realisations sequential_state (1, 1) [(1, 0)] =
     (Inr (\<lparr>nrows = 9, cols = [column_of sequential_array 2 3 [0..<3] (1, 0)]\<rparr>,
           concat (map (replicate 3) [0..<3])), sequential_state)"
proof -
  have "get_data sequential_state [(1, 0)] (1, 1) False =
           (Inr (\<lparr>nrows = nat (int 4 - 1) * 3,
                   cols = map (column_of sequential_array 2 (nat (int 4 - 1)) [0..<3]) [(1, 0)]\<rparr>,
                 concat (map (replicate (nat (int 4 - 1))) [0..<3])), sequential_state)"
    by (rule get_data_valid [OF stores_sequential_state nan_free_sequential_array])
       (simp_all add: valid_variable_def np_arange_def)
  then show ?thesis by (simp add: get_realisations_def)
qed

lemma sequential_count: "count_list (concat (map (replicate 3) [0..<3])) 0 = 3"
  by (simp add: count_natural_index)

text \<open>
  Claim C3. Take a call of \<^verbatim>\<open>permute_samples\<close> whose retrieval succeeds, with a random
  source that returns permutations and with \<^verbatim>\<open>perm_range\<close> either \<^verbatim>\<open>'max'\<close> or an
  integer above 1 and not above the number of realisations per replication. The call
  returns an array of the same shape, and for every replication \<open>r\<close> and every column the
  values of the permuted column in the rows of \<open>r\<close> are, as a multiset, the values of the
  unpermuted column in those rows.
\<close>

theorem permute_samples_preserves_values:
  assumes "get_realisations st cv idx_list = (Inr (m, ridx), st1)"
    and "valid_random_source st"
    and "pr = Range_str ''max'' \<or> (\<exists>b. pr = Range_int b \<and> 1 < b \<and> b \<le> int (count_list ridx 0))"
  shows "\<exists>m' pidx st2. permute_samples st cv idx_list pr = (Inr (m', pidx), st2)
         \<and> nrows m' = nrows m \<and> length (cols m') = length (cols m)
         \<and> (\<forall>r. \<forall>c < length (cols m).
               mset (rows_of ridx r (cols m' ! c)) = mset (rows_of ridx r (cols m ! c)))"
proof -
  let ?n = "count_list ridx 0"
  from assms(3) obtain b where b: "check_perm_range pr (int ?n) = Inr b" "b \<le> int ?n"
    by (auto simp: check_perm_range_def)
  from permute_samples_valid [OF assms(1,2) b] obtain perm m' pidx st2 R where
    ps: "permute_samples st cv idx_list pr = (Inr (m', pidx), st2)"
    and R: "n_replications (self st) = Some R"
    and ms: "mset perm = mset (map int [0..<?n])"
    and sh: "nrows m' = nrows m" "length (cols m') = length (cols m)"
    and rows: "\<And>r c. c < length (cols m) \<Longrightarrow> rows_of ridx r (cols m' ! c) =
               (if r < R then map (\<lambda>p. rows_of ridx r (cols m ! c) ! nat p) perm
                else rows_of ridx r (cols m ! c))"
    by blast
  from get_realisations_success(2) [OF assms(1)] R obtain S where
    ridx: "ridx = concat (map (replicate (nat (int S - snd cv))) [0..<R])"
    and colen: "\<forall>c \<in> set (cols m). length c = length ridx"
    by auto
  have eq: "mset (rows_of ridx r (cols m' ! c)) = mset (rows_of ridx r (cols m ! c))"
    if c: "c < length (cols m)" for r c
  proof (cases "r < R")
    case False
    then show ?thesis using rows [OF c, of r] by simp
  next
    case True
    let ?xs = "rows_of ridx r (cols m ! c)"
    have "count_list ridx r = ?n"
      using True unfolding ridx by (simp add: count_natural_index)
    moreover have "length ?xs = count_list ridx r"
      by (rule length_rows_of) (use colen c in simp)
    ultimately have "mset perm = mset (map int [0..<length ?xs])" using ms by simp
    from mset_permuted [OF this] show ?thesis using rows [OF c, of r] True by simp
  qed
  show ?thesis
    using ps sh eq by blast
qed

theorem permute_samples_preserves_values_witness:
  "get_realisations sequential_state (1, 1) [(1, 0)] =
     (Inr (\<lparr>nrows = 9, cols = [column_of sequential_array 2 3 [0..<3] (1, 0)]\<rparr>,
           concat (map (replicate 3) [0..<3])), sequential_state)
   \<and> valid_random_source sequential_state
   \<and> (Range_int 2 = Range_str ''max'' \<or>
        (\<exists>b. Range_int 2 = Range_int b \<and> 1 < b
            \<and> b \<le> int (count_list (concat (map (replicate 3) [0..<3])) 0)))
   \<and> (\<exists>m' pidx st2. permute_samples sequential_state (1, 1) [(1, 0)] (Range_int 2) = (Inr (m', pidx), st2)
         \<and> nrows m' = 9 \<and> length (cols m') = 1
         \<and> (\<forall>r. mset (rows_of (concat (map (replicate 3) [0..<3])) r (cols m' ! 0)) =
                  mset (rows_of (concat (map (replicate 3) [0..<3])) r
                         (column_of sequential_array 2 3 [0..<3] (1, 0)))))"
proof -
  have h3: "Range_int 2 = Range_str ''max'' \<or>
        (\<exists>b. Range_int 2 = Range_int b \<and> 1 < b
            \<and> b \<le> int (count_list (concat (map (replicate 3) [0..<3])) 0))"
    unfolding sequential_count by simp
  from permute_samples_preserves_values [OF sequential_realisations
      valid_random_source_sequential_state h3]
  have "\<exists>m' pidx st2. permute_samples sequential_state (1, 1) [(1, 0)] (Range_int 2) = (Inr (m', pidx), st2)
         \<and> nrows m' = 9 \<and> length (cols m') = 1
         \<and> (\<forall>r. mset (rows_of (concat (map (replicate 3) [0..<3])) r (cols m' ! 0)) =
                  mset (rows_of (concat (map (replicate 3) [0..<3])) r
                         (column_of sequential_array 2 3 [0..<3] (1, 0))))"
    by simp
  then show ?thesis
    using sequential_realisations valid_random_source_sequential_state h3
    by - (rule conjI | assumption)+
qed

text \<open>
  Claim C7. Take a call of \<^verbatim>\<open>permute_samples\<close> whose retrieval succeeds, with a random
  source that returns permutations and an integer \<^verbatim>\<open>perm_range\<close> \<open>b\<close> with
  \<open>2 \<le> b < n_per_repl\<close>, where \<open>n_per_repl\<close> is the number of rows of replication 0. Then
  \<open>n_per_repl = S - t\<close>, the call succeeds, and there is one permutation \<open>perm\<close> of
  \<open>0, \<dots>, n_per_repl - 1\<close> such that the rows of every replication are the unpermuted rows of
  that replication taken in the order \<open>perm\<close>, the returned position vector is \<open>perm\<close>
  on the rows of every replication, and every position \<open>j\<close> receives a position of its
  own block: \<open>perm j\<close> and \<open>j\<close> have the same quotient by \<open>b\<close>. The blocks are the
  positions of equal quotient: \<open>[0, b)\<close>, \<open>[b, 2b)\<close>, \<dots>, and a last one of
  \<open>n_per_repl mod b\<close> positions.
\<close>

theorem permute_samples_respects_blocks:
  assumes "get_realisations st cv idx_list = (Inr (m, ridx), st1)"
    and "valid_random_source st" and "2 \<le> b" and "b < int (count_list ridx 0)"
  shows "\<exists>perm m' pidx st2 S R.
           permute_samples st cv idx_list (Range_int b) = (Inr (m', pidx), st2)
         \<and> n_samples (self st) = Some S \<and> n_replications (self st) = Some R
         \<and> int (count_list ridx 0) = int S - snd cv
         \<and> mset perm = mset (map int [0..<count_list ridx 0])
         \<and> (\<forall>j < count_list ridx 0. perm ! j div b = int j div b)
         \<and> (\<forall>r < R. rows_of ridx r pidx = map (\<lambda>p. Finite (of_int p)) perm
               \<and> (\<forall>c < length (cols m). rows_of ridx r (cols m' ! c) =
                     map (\<lambda>p. rows_of ridx r (cols m ! c) ! nat p) perm))"
proof -
  let ?n = "count_list ridx 0"
  have b: "check_perm_range (Range_int b) (int ?n) = Inr b" "b \<le> int ?n"
    using assms(3,4) by (simp_all add: check_perm_range_def)
  from permute_samples_valid [OF assms(1,2) b] assms(4) obtain perm m' pidx st2 R where
    ps: "permute_samples st cv idx_list (Range_int b) = (Inr (m', pidx), st2)"
    and R: "n_replications (self st) = Some R"
    and ms: "mset perm = mset (map int [0..<?n])"
    and blk: "\<forall>j < ?n. perm ! j div b = int j div b"
    and rows: "\<forall>r. \<forall>c < length (cols m). rows_of ridx r (cols m' ! c) =
               (if r < R then map (\<lambda>p. rows_of ridx r (cols m ! c) ! nat p) perm
                else rows_of ridx r (cols m ! c))"
    and prow: "\<forall>r < R. rows_of ridx r pidx = map (\<lambda>p. Finite (of_int p)) perm"
    by auto
  from get_realisations_success(2) [OF assms(1)] R obtain S where
    S: "n_samples (self st) = Some S"
    and ridx: "ridx = concat (map (replicate (nat (int S - snd cv))) [0..<R])"
    and pos: "0 < R \<longrightarrow> snd cv \<le> int S"
    by auto
  have cnt: "?n = (if 0 < R then nat (int S - snd cv) else 0)"
    unfolding ridx by (simp add: count_natural_index)
  have "0 < ?n" using assms(3,4) by linarith
  then have "0 < R" using cnt by (cases "0 < R") simp_all
  then have n: "int ?n = int S - snd cv" using cnt pos by simp
  show ?thesis
    using ps S R n ms blk rows prow by (intro exI [of _ perm] exI conjI) auto
qed


theorem permute_samples_respects_blocks_witness:
  "get_realisations sequential_state (1, 1) [(1, 0)] =
     (Inr (\<lparr>nrows = 9, cols = [column_of sequential_array 2 3 [0..<3] (1, 0)]\<rparr>,
           concat (map (replicate 3) [0..<3])), sequential_state)
   \<and> valid_random_source sequential_state \<and> (2::int) \<le> 2
   \<and> (2::int) < int (count_list (concat (map (replicate 3) [0..<3])) 0)
   \<and> (\<exists>perm m' pidx st2.
         permute_samples sequential_state (1, 1) [(1, 0)] (Range_int 2) = (Inr (m', pidx), st2)
       \<and> mset perm = mset (map int [0..<3])
       \<and> (\<forall>j < 3. perm ! j div 2 = int j div 2)
       \<and> (\<forall>r < 3. rows_of (concat (map (replicate 3) [0..<3])) r pidx =
                     map (\<lambda>p. Finite (of_int p)) perm))"
proof -
  have h3: "(2::int) \<le> 2" by simp
  have h4: "(2::int) < int (count_list (concat (map (replicate 3) [0..<3])) 0)"
    unfolding sequential_count by simp
  from permute_samples_respects_blocks [OF sequential_realisations
      valid_random_source_sequential_state h3 h4]
  obtain perm m' pidx st2 S R where
    "permute_samples sequential_state (1, 1) [(1, 0)] (Range_int 2) = (Inr (m', pidx), st2)"
    "n_replications (self sequential_state) = Some R"
    "mset perm = mset (map int [0..<count_list (concat (map (replicate 3) [0..<3])) 0])"
    "\<forall>j < count_list (concat (map (replicate 3) [0..<3])) 0. perm ! j div 2 = int j div 2"
    "\<forall>r < R. rows_of (concat (map (replicate 3) [0..<3])) r pidx =
                     map (\<lambda>p. Finite (of_int p)) perm"
    by blast
  moreover have "n_replications (self sequential_state) = Some 3"
    by (simp add: sequential_state_def)
  ultimately have "\<exists>perm m' pidx st2.
         permute_samples sequential_state (1, 1) [(1, 0)] (Range_int 2) = (Inr (m', pidx), st2)
       \<and> mset perm = mset (map int [0..<3])
       \<and> (\<forall>j < 3. perm ! j div 2 = int j div 2)
       \<and> (\<forall>r < 3. rows_of (concat (map (replicate 3) [0..<3])) r pidx =
                     map (\<lambda>p. Finite (of_int p)) perm)"
    unfolding sequential_count by auto
  then show ?thesis
    using sequential_realisations valid_random_source_sequential_state h3 h4
    by - (rule conjI | assumption)+
qed

text \<open>
  Claim C8. An integer \<^verbatim>\<open>perm_range\<close> of 1 or less, or one above \<open>S - t\<close>, makes
  \<^verbatim>\<open>permute_samples\<close> fail: no permuted realisations are returned. When the retrieval
  itself succeeds, the failure is one of the two assertions on the permutation range, and
  the state is as before the call. (When the retrieval fails, its own error is raised
  first.)
\<close>

theorem invalid_perm_range_rejected:
  assumes "b \<le> 1 \<or> (\<exists>S. n_samples (self st) = Some S \<and> int S - snd cv < b)"
  shows "(\<exists>e st'. permute_samples st cv idx_list (Range_int b) = (Inl e, st'))
       \<and> (\<forall>m ridx st1. get_realisations st cv idx_list = (Inr (m, ridx), st1) \<longrightarrow>
             permute_samples st cv idx_list (Range_int b) =
               (Inl (AssertionError (if b \<le> 1
                  then ''Permutation range has to be larger than 1 otherwise there is nothing to permute.''
                  else ''Not enough realisations per replication ({0}) to allow for the requested perm_range ({1}).'')),
                st))"
proof -
  have main: "permute_samples st cv idx_list (Range_int b) =
               (Inl (AssertionError (if b \<le> 1
                  then ''Permutation range has to be larger than 1 otherwise there is nothing to permute.''
                  else ''Not enough realisations per replication ({0}) to allow for the requested perm_range ({1}).'')),
                st)"
    if g: "get_realisations st cv idx_list = (Inr (m, ridx), st1)" for m ridx st1
  proof (cases "b \<le> 1")
    case True
    then show ?thesis
      using g get_realisations_success(1) [OF g]
      by (simp add: permute_samples_def check_perm_range_def)
  next
    case False
    from get_realisations_success(2) [OF g] obtain S R where
      S: "n_samples (self st) = Some S"
      and ridx: "ridx = concat (map (replicate (nat (int S - snd cv))) [0..<R])"
      and rows: "nrows m = length ridx"
      and pos: "0 < R \<longrightarrow> snd cv \<le> int S"
      by blast
    have lt: "int S - snd cv < b" using assms False S by auto
    have cnt: "count_list ridx 0 = (if 0 < R then nat (int S - snd cv) else 0)"
      unfolding ridx by (simp add: count_natural_index)
    have "int (count_list ridx 0) < b"
      using cnt lt pos False by (cases "0 < R") simp_all
    then show ?thesis
      using False g rows get_realisations_success(1) [OF g]
      by (simp add: permute_samples_def check_perm_range_def)
  qed
  show ?thesis
  proof (cases "get_realisations st cv idx_list")
    case (Pair res st1)
    show ?thesis
    proof (cases res)
      case (Inl e)
      then show ?thesis using Pair by (simp add: permute_samples_def)
    next
      case (Inr mr)
      then obtain m ridx where "get_realisations st cv idx_list = (Inr (m, ridx), st1)"
        using Pair by (cases mr) simp
      from main [OF this] show ?thesis using main by blast
    qed
  qed
qed

theorem invalid_perm_range_rejected_witness:
  "((6::int) \<le> 1 \<or> (\<exists>S. n_samples (self sequential_state) = Some S \<and> int S - snd (1::int, 1::int) < 6))
   \<and> permute_samples sequential_state (1, 1) [(1, 0)] (Range_int 6) =
       (Inl (AssertionError
          ''Not enough realisations per replication ({0}) to allow for the requested perm_range ({1}).''),
        sequential_state)"
proof -
  have h: "(6::int) \<le> 1 \<or> (\<exists>S. n_samples (self sequential_state) = Some S \<and> int S - snd (1::int, 1::int) < 6)"
    by (simp add: sequential_state_def)
  show ?thesis
    using h invalid_perm_range_rejected [OF h, of "[(1, 0)]"] sequential_realisations by simp
qed

section \<open>Reordering the axes\<close>


lemmas reorder_defs = reorder_data_def Let_def str_at_def str_index_def swapaxes_def
  swap_chars_def swap_list_def expand_dims_def ndim_def axis_size_def

lemma reorder_rank1:
  assumes "shape data = [a]" and "dim_order \<in> {''p'', ''s'', ''r''}"
  shows "\<exists>d. reorder_data data dim_order = Inr d
           \<and> shape d = [axis_size data dim_order CHR ''p'', axis_size data dim_order CHR ''s'',
                        axis_size data dim_order CHR ''r'']"
proof -
  from assms(2) have "dim_order = ''p'' \<or> dim_order = ''s'' \<or> dim_order = ''r''"
    by simp
  then show ?thesis using assms(1) by (elim disjE) (simp_all add: reorder_defs)
qed

lemma reorder_rank2:
  assumes "shape data = [a, b]"
    and "dim_order \<in> {''ps'', ''pr'', ''sp'', ''sr'', ''rp'', ''rs''}"
  shows "\<exists>d. reorder_data data dim_order = Inr d
           \<and> shape d = [axis_size data dim_order CHR ''p'', axis_size data dim_order CHR ''s'',
                        axis_size data dim_order CHR ''r'']"
proof -
  from assms(2) have "dim_order = ''ps'' \<or> dim_order = ''pr'' \<or> dim_order = ''sp''
    \<or> dim_order = ''sr'' \<or> dim_order = ''rp'' \<or> dim_order = ''rs''"
    by simp
  then show ?thesis using assms(1) by (elim disjE) (simp_all add: reorder_defs)
qed

lemma reorder_rank3:
  assumes "shape data = [a, b, c]"
    and "dim_order \<in> {''psr'', ''prs'', ''spr'', ''srp'', ''rps'', ''rsp''}"
  shows "\<exists>d. reorder_data data dim_order = Inr d
           \<and> shape d = [axis_size data dim_order CHR ''p'', axis_size data dim_order CHR ''s'',
                        axis_size data dim_order CHR ''r'']"
proof -
  from assms(2) have "dim_order = ''psr'' \<or> dim_order = ''prs'' \<or> dim_order = ''spr''
    \<or> dim_order = ''srp'' \<or> dim_order = ''rps'' \<or> dim_order = ''rsp''"
    by simp
  then show ?thesis using assms(1) by (elim disjE) (simp_all add: reorder_defs)
qed

lemma symbols_cases:
  assumes "c \<in> {CHR ''p'', CHR ''s'', CHR ''r''}"
  shows "c = CHR ''p'' \<or> c = CHR ''s'' \<or> c = CHR ''r''"
  using assms by simp

lemma orders_rank1:
  assumes "set dim_order \<subseteq> {CHR ''p'', CHR ''s'', CHR ''r''}" "length dim_order = 1"
  shows "dim_order \<in> {''p'', ''s'', ''r''}"
proof -
  from assms(2) obtain x where o: "dim_order = [x]" by (auto simp: length_Suc_conv)
  with assms(1) have "x = CHR ''p'' \<or> x = CHR ''s'' \<or> x = CHR ''r''" by simp
  then show ?thesis using o by (elim disjE) simp_all
qed

lemma orders_rank2:
  assumes "set dim_order \<subseteq> {CHR ''p'', CHR ''s'', CHR ''r''}" "length dim_order = 2"
    and "distinct dim_order"
  shows "dim_order \<in> {''ps'', ''pr'', ''sp'', ''sr'', ''rp'', ''rs''}"
proof -
  from assms(2) obtain x y where o: "dim_order = [x, y]"
    by (auto simp: length_Suc_conv numeral_2_eq_2)
  with assms(1,3) have "x = CHR ''p'' \<or> x = CHR ''s'' \<or> x = CHR ''r''"
    "y = CHR ''p'' \<or> y = CHR ''s'' \<or> y = CHR ''r''" "x \<noteq> y" by simp_all
  then show ?thesis using o by (elim disjE) simp_all
qed

lemma orders_rank3:
  assumes "set dim_order \<subseteq> {CHR ''p'', CHR ''s'', CHR ''r''}" "length dim_order = 3"
    and "distinct dim_order"
  shows "dim_order \<in> {''psr'', ''prs'', ''spr'', ''srp'', ''rps'', ''rsp''}"
proof -
  from assms(2) obtain x y z where o: "dim_order = [x, y, z]"
    by (auto simp: length_Suc_conv numeral_3_eq_3)
  with assms(1,3) have "x = CHR ''p'' \<or> x = CHR ''s'' \<or> x = CHR ''r''"
    "y = CHR ''p'' \<or> y = CHR ''s'' \<or> y = CHR ''r''"
    "z = CHR ''p'' \<or> z = CHR ''s'' \<or> z = CHR ''r''" "x \<noteq> y" "x \<noteq> z" "y \<noteq> z" by simp_all
  then show ?thesis using o by (elim disjE) simp_all
qed

section \<open>Setting the data: the counts\<close>


lemma reorder_data_valid:
  assumes "valid_dim_order data dim_order"
  shows "\<exists>d. reorder_data data dim_order = Inr d
           \<and> shape d = [axis_size data dim_order CHR ''p'', axis_size data dim_order CHR ''s'',
                        axis_size data dim_order CHR ''r'']"
proof -
  from assms have d: "distinct dim_order" and s: "set dim_order \<subseteq> {CHR ''p'', CHR ''s'', CHR ''r''}"
    and l: "length dim_order = length (shape data)" "1 \<le> length (shape data)" "length (shape data) \<le> 3"
    by (simp_all add: valid_dim_order_def ndim_def)
  from l(2,3) consider "length (shape data) = 1" | "length (shape data) = 2" | "length (shape data) = 3"
    by linarith
  then show ?thesis
  proof cases
    case 1
    then obtain a where sh: "shape data = [a]" by (auto simp: length_Suc_conv)
    from 1 l(1) have "length dim_order = 1" by simp
    from reorder_rank1 [OF sh orders_rank1 [OF s this]] show ?thesis .
  next
    case 2
    then obtain a b where sh: "shape data = [a, b]"
      by (auto simp: length_Suc_conv numeral_2_eq_2)
    from 2 l(1) have "length dim_order = 2" by simp
    from reorder_rank2 [OF sh orders_rank2 [OF s this d]] show ?thesis .
  next
    case 3
    then obtain a b c where sh: "shape data = [a, b, c]"
      by (auto simp: length_Suc_conv numeral_3_eq_3)
    from 3 l(1) have "length dim_order = 3" by simp
    from reorder_rank3 [OF sh orders_rank3 [OF s this d]] show ?thesis .
  qed
qed

lemma set_data_result:
  assumes "length dim_order \<le> 3" and "length dim_order = ndim data"
    and "reorder_data data dim_order = Inr d" and "shape d = [P, S, R]"
  shows "n_processes (self (snd (set_data standardise st data dim_order))) = Some P
       \<and> n_samples (self (snd (set_data standardise st data dim_order))) = Some S
       \<and> n_replications (self (snd (set_data standardise st data dim_order))) = Some R"
    and "\<not> normalise (self st) \<Longrightarrow>
         set_data standardise st data dim_order =
           (Inr (), st\<lparr>self := (self st)\<lparr>priv_data := Some d, n_processes := Some P,
                                          n_samples := Some S, n_replications := Some R\<rparr>,
                       stdout := stdout st @ [Adding_data P S R, Overwriting_existing_data]\<rparr>)"
proof -
  let ?st1 = "st\<lparr>self := (self st)\<lparr>n_processes := Some P, n_samples := Some S,
                                      n_replications := Some R\<rparr>\<rparr>"
  let ?st3 = "?st1\<lparr>self := (self ?st1)\<lparr>priv_data := None\<rparr>,
                    stdout := stdout st @ [Adding_data P S R, Overwriting_existing_data]\<rparr>"
  have sz: "set_data_size st d = (Inr (), ?st1)"
    using assms(4) by (simp add: set_data_size_def shape_at_def ndim_def Let_def)
  have del: "data_deleter (py_print (Adding_data P S R) ?st1) =
               ((case priv_data (self st) of None \<Rightarrow> Inl (AttributeError ''_data'') | Some _ \<Rightarrow> Inr ()),
                ?st3)"
    by (cases "priv_data (self st)") (simp_all add: data_deleter_def py_print_def Let_def)
  have set: "data_setter ?st3 x = (Inr (), ?st3\<lparr>self := (self ?st3)\<lparr>priv_data := Some x\<rparr>\<rparr>)" for x
    by (simp add: data_setter_def data_getter_def)
  have body: "set_data standardise st data dim_order =
                (if normalise (self st)
                 then (case normalise_data standardise ?st3 d of
                         Inl e \<Rightarrow> (Inl e, ?st3)
                       | Inr x \<Rightarrow> (Inr (), ?st3\<lparr>self := (self ?st3)\<lparr>priv_data := Some x\<rparr>\<rparr>))
                 else (Inr (), ?st3\<lparr>self := (self ?st3)\<lparr>priv_data := Some d\<rparr>\<rparr>))"
    using assms(1,2,3) sz del set
    by (cases "priv_data (self st)") (simp_all add: set_data_def split: sum.splits)
  show "n_processes (self (snd (set_data standardise st data dim_order))) = Some P
       \<and> n_samples (self (snd (set_data standardise st data dim_order))) = Some S
       \<and> n_replications (self (snd (set_data standardise st data dim_order))) = Some R"
    unfolding body by (cases "normalise_data standardise ?st3 d") simp_all
  show "set_data standardise st data dim_order =
           (Inr (), st\<lparr>self := (self st)\<lparr>priv_data := Some d, n_processes := Some P,
                                          n_samples := Some S, n_replications := Some R\<rparr>,
                       stdout := stdout st @ [Adding_data P S R, Overwriting_existing_data]\<rparr>)"
    if "\<not> normalise (self st)"
    unfolding body using that by simp
qed

text \<open>
  Claim C5. For an array of one to three axes and an order string of as many distinct
  symbols among \<open>p\<close>, \<open>s\<close> and \<open>r\<close>, the counts of the object after \<^verbatim>\<open>set_data\<close> are the
  sizes of the array along the axes that the string names \<open>p\<close>, \<open>s\<close> and \<open>r\<close>, and 1
  for a symbol that the string does not hold. This is so whether the data are normalised
  or not; without normalisation the call returns without error.
\<close>

theorem set_data_counts_match_axes:
  assumes "valid_dim_order data dim_order"
  shows "n_processes (self (snd (set_data standardise st data dim_order))) =
           Some (axis_size data dim_order CHR ''p'')
       \<and> n_samples (self (snd (set_data standardise st data dim_order))) =
           Some (axis_size data dim_order CHR ''s'')
       \<and> n_replications (self (snd (set_data standardise st data dim_order))) =
           Some (axis_size data dim_order CHR ''r'')
       \<and> (\<not> normalise (self st) \<longrightarrow> fst (set_data standardise st data dim_order) = Inr ())"
proof -
  from reorder_data_valid [OF assms] obtain d where
    d: "reorder_data data dim_order = Inr d"
    and sh: "shape d = [axis_size data dim_order CHR ''p'', axis_size data dim_order CHR ''s'',
                        axis_size data dim_order CHR ''r'']"
    by blast
  have l: "length dim_order \<le> 3" "length dim_order = ndim data"
    using assms by (simp_all add: valid_dim_order_def)
  show ?thesis
    using set_data_result [OF l d sh, where standardise = standardise and st = st] by simp
qed

theorem set_data_counts_match_axes_witness:
  "valid_dim_order sequential_array ''rsp''
   \<and> n_processes (self (snd (set_data id blank_state sequential_array ''rsp''))) = Some 3
   \<and> n_samples (self (snd (set_data id blank_state sequential_array ''rsp''))) = Some 4
   \<and> n_replications (self (snd (set_data id blank_state sequential_array ''rsp''))) = Some 2"
proof -
  have h: "valid_dim_order sequential_array ''rsp''"
    by (simp add: valid_dim_order_def sequential_array_def ndim_def)
  show ?thesis
    using h set_data_counts_match_axes [OF h, where standardise = id and st = blank_state]
    by (simp add: axis_size_def str_index_def sequential_array_def)
qed

section \<open>The scenario of sequential integers\<close>


lemma reorder_psr: "ndim data = 3 \<Longrightarrow> reorder_data data ''psr'' = Inr data"
  by (simp add: reorder_defs)

lemma upt_3: "[0..<3] = [0, 1, 2]"
  by (simp add: upt_rec)

text \<open>
  Claim C6, amended: the object is made without normalisation. From any state,
  \<^verbatim>\<open>Data(np.arange(24).reshape(2, 4, 3), 'psr', normalise=False)\<close> succeeds, and then
  \<^verbatim>\<open>get_realisations\<close> with current value \<open>(1, 3)\<close> and the variables \<open>(1, 0)\<close>, \<open>(1, 1)\<close>,
  \<open>(1, 2)\<close> returns three rows, one per replication 0, 1, 2 in this order, and three
  columns; the entry in row \<open>r\<close> and column \<open>j\<close> is the value of the array at process 1,
  sample \<open>j\<close>, replication \<open>r\<close> (the columns are listed one after the other).
\<close>

theorem sequential_scenario:
  "init standardise st (Some sequential_array) ''psr'' False =
     (Inr (), st\<lparr>self := \<lparr>normalise = False, priv_data = Some sequential_array,
                           n_processes = Some 2, n_samples = Some 4, n_replications = Some 3\<rparr>,
                 stdout := stdout st @ [Adding_data 2 4 3, Overwriting_existing_data]\<rparr>)
   \<and> get_realisations (snd (init standardise st (Some sequential_array) ''psr'' False)) (1, 3)
         [(1, 0), (1, 1), (1, 2)] =
       (Inr (\<lparr>nrows = 3,
               cols = [[Finite 12, Finite 13, Finite 14],
                       [Finite 15, Finite 16, Finite 17],
                       [Finite 18, Finite 19, Finite 20]]\<rparr>, [0, 1, 2]),
        snd (init standardise st (Some sequential_array) ''psr'' False))
   \<and> [[Finite 12, Finite 13, Finite 14],
       [Finite 15, Finite 16, Finite 17],
       [Finite 18, Finite 19, Finite 20]] =
      [[elems sequential_array [1, 0, 0], elems sequential_array [1, 0, 1], elems sequential_array [1, 0, 2]],
       [elems sequential_array [1, 1, 0], elems sequential_array [1, 1, 1], elems sequential_array [1, 1, 2]],
       [elems sequential_array [1, 2, 0], elems sequential_array [1, 2, 1], elems sequential_array [1, 2, 2]]]"
proof -
  let ?st0 = "st\<lparr>self := \<lparr>normalise = False, priv_data = None, n_processes = None,
                              n_samples = None, n_replications = None\<rparr>\<rparr>"
  let ?st1 = "st\<lparr>self := \<lparr>normalise = False, priv_data = Some sequential_array,
                           n_processes = Some 2, n_samples = Some 4, n_replications = Some 3\<rparr>,
                 stdout := stdout st @ [Adding_data 2 4 3, Overwriting_existing_data]\<rparr>"
  have sh: "shape sequential_array = [2, 4, 3]" "ndim sequential_array = 3"
    by (simp_all add: sequential_array_def ndim_def)
  have "set_data standardise ?st0 sequential_array ''psr'' =
          (Inr (), ?st0\<lparr>self := (self ?st0)\<lparr>priv_data := Some sequential_array, n_processes := Some 2,
                                          n_samples := Some 4, n_replications := Some 3\<rparr>,
                       stdout := stdout ?st0 @ [Adding_data 2 4 3, Overwriting_existing_data]\<rparr>)"
    by (rule set_data_result(2) [OF _ _ reorder_psr [OF sh(2)] sh(1)]) (simp_all add: sh)
  then have i: "init standardise st (Some sequential_array) ''psr'' False = (Inr (), ?st1)"
    by (simp add: init_def)
  have "get_data ?st1 [(1, 0), (1, 1), (1, 2)] (1, 3) False =
           (Inr (\<lparr>nrows = nat (int 4 - 3) * 3,
                   cols = map (column_of sequential_array 2 (nat (int 4 - 3)) [0..<3])
                            [(1, 0), (1, 1), (1, 2)]\<rparr>,
                 concat (map (replicate (nat (int 4 - 3))) [0..<3])), ?st1)"
    by (rule get_data_valid [OF _ nan_free_sequential_array])
       (simp_all add: stores_def sh valid_variable_def np_arange_def)
  then have g: "get_realisations ?st1 (1, 3) [(1, 0), (1, 1), (1, 2)] =
       (Inr (\<lparr>nrows = 3,
               cols = [[Finite 12, Finite 13, Finite 14],
                       [Finite 15, Finite 16, Finite 17],
                       [Finite 18, Finite 19, Finite 20]]\<rparr>, [0, 1, 2]), ?st1)"
    by (simp add: get_realisations_def column_of_def segment_def py_index_def
        sequential_array_def upt_3)
  have e: "[[Finite 12, Finite 13, Finite 14],
       [Finite 15, Finite 16, Finite 17],
       [Finite 18, Finite 19, Finite 20]] =
      [[elems sequential_array [1, 0, 0], elems sequential_array [1, 0, 1], elems sequential_array [1, 0, 2]],
       [elems sequential_array [1, 1, 0], elems sequential_array [1, 1, 1], elems sequential_array [1, 1, 2]],
       [elems sequential_array [1, 2, 0], elems sequential_array [1, 2, 1], elems sequential_array [1, 2, 2]]]"
    by (simp add: sequential_array_def)
  show ?thesis
    unfolding i snd_conv using g e by (intro conjI) simp_all
qed

lemma length_standardise_spec [simp]: "length (standardise_spec xs) = length xs"
  by (simp add: standardise_spec_def Let_def)

lemma upt_12: "[0..<12] = [0, 1, 2, 3, 4, 5, 6, 7, 8, 9, 10, 11]"
  by (simp add: upt_rec)

lemma standardise_sequence:
  "standardise_spec (map (\<lambda>k. Finite (real (c + k))) [0..<12]) =
     map (\<lambda>k. Finite ((real k - 11 / 2) / sqrt (143 / 12))) [0..<12]"
proof -
  let ?vs = "map (\<lambda>k. real (c + k)) [0..<12]"
  have vs: "map finite_value (map (\<lambda>k. Finite (real (c + k))) [0..<12]) = ?vs"
    by (simp add: finite_value_def comp_def)
  have fin: "list_all is_finite (map (\<lambda>k. Finite (real (c + k))) [0..<12])"
    by (simp add: list_all_iff is_finite_def)
  have mean: "sum_list ?vs / real (length ?vs) = real c + 11 / 2"
    by (simp add: upt_12)
  have var: "sum_list (map (\<lambda>v. (v - (real c + 11 / 2))\<^sup>2) ?vs) / real (length ?vs) = 143 / 12"
    by (simp add: upt_12 power2_eq_square)
  have sd: "sqrt (143 / 12) \<noteq> 0" by simp
  show ?thesis
    unfolding standardise_spec_def Let_def vs mean var
    using fin sd by (simp add: comp_def)
qed

section \<open>Normalised data\<close>


lemma standardise_process_valid:
  assumes "shape d = [P, S, R]" and "n_samples ds = Some S" and "n_replications ds = Some R"
    and "p < P" and "\<forall>xs. length (std xs) = length xs"
  shows "standardise_process std ds d p acc =
           Inr (acc\<lparr>elems := (\<lambda>ix.
                  if ix ! 0 = p
                  then std (map (\<lambda>k. elems d [p, k div R, k mod R]) [0..<S * R]) ! (ix ! 1 * R + ix ! 2)
                  else elems acc ix)\<rparr>)"
  using assms
  by (simp add: standardise_process_def ndim_def n_realisations_def n_realisations_samples_def
      n_realisations_repl_def Let_def)

lemma standardise_processes_valid:
  assumes "shape d = [P, S, R]" and "n_samples ds = Some S" and "n_replications ds = Some R"
    and "\<forall>xs. length (std xs) = length xs" and "\<forall>p \<in> set ps. p < P"
  shows "\<exists>dn. standardise_processes std ds d ps acc = Inr dn \<and> shape dn = shape acc
           \<and> (\<forall>ix. elems dn ix =
                 (if ix ! 0 \<in> set ps
                  then std (map (\<lambda>k. elems d [ix ! 0, k div R, k mod R]) [0..<S * R])
                         ! (ix ! 1 * R + ix ! 2)
                  else elems acc ix))"
  using assms(5)
proof (induction ps arbitrary: acc)
  case Nil
  then show ?case by simp
next
  case (Cons p ps)
  let ?acc1 = "acc\<lparr>elems := (\<lambda>ix.
                  if ix ! 0 = p
                  then std (map (\<lambda>k. elems d [p, k div R, k mod R]) [0..<S * R]) ! (ix ! 1 * R + ix ! 2)
                  else elems acc ix)\<rparr>"
  have p: "standardise_process std ds d p acc = Inr ?acc1"
    by (rule standardise_process_valid [OF assms(1-3) _ assms(4)]) (use Cons.prems in simp)
  from Cons.IH [of ?acc1] Cons.prems obtain dn where
    dn: "standardise_processes std ds d ps ?acc1 = Inr dn" "shape dn = shape ?acc1"
    and el: "\<And>ix. elems dn ix =
                 (if ix ! 0 \<in> set ps
                  then std (map (\<lambda>k. elems d [ix ! 0, k div R, k mod R]) [0..<S * R])
                         ! (ix ! 1 * R + ix ! 2)
                  else elems ?acc1 ix)"
    by auto
  have "standardise_processes std ds d (p # ps) acc = Inr dn"
    using p dn(1) by simp
  moreover have "shape dn = shape acc" using dn(2) by simp
  moreover have "elems dn ix =
                 (if ix ! 0 \<in> set (p # ps)
                  then std (map (\<lambda>k. elems d [ix ! 0, k div R, k mod R]) [0..<S * R])
                         ! (ix ! 1 * R + ix ! 2)
                  else elems acc ix)" for ix
    using el [of ix] by auto
  ultimately show ?case by blast
qed

lemma normalise_data_valid:
  assumes "shape d = [P, S, R]" and "n_processes (self st) = Some P"
    and "n_samples (self st) = Some S" and "n_replications (self st) = Some R"
    and "\<forall>xs. length (std xs) = length xs"
  shows "\<exists>dn. normalise_data std st d = Inr dn \<and> shape dn = [P, S, R]
           \<and> (\<forall>p < P. \<forall>j r. elems dn [p, j, r] =
                 std (map (\<lambda>k. elems d [p, k div R, k mod R]) [0..<S * R]) ! (j * R + r))"
proof -
  from standardise_processes_valid [OF assms(1,3,4,5), of "[0..<P]"
      "np_empty_nd (fresh_floats st) (shape d)"]
  obtain dn where
    "standardise_processes std (self st) d [0..<P] (np_empty_nd (fresh_floats st) (shape d)) = Inr dn"
    "shape dn = shape (np_empty_nd (fresh_floats st) (shape d))"
    "\<And>ix. elems dn ix =
                 (if ix ! 0 \<in> set [0..<P]
                  then std (map (\<lambda>k. elems d [ix ! 0, k div R, k mod R]) [0..<S * R])
                         ! (ix ! 1 * R + ix ! 2)
                  else elems (np_empty_nd (fresh_floats st) (shape d)) ix)"
    by auto
  then show ?thesis
    using assms(1,2) by (simp add: normalise_data_def np_empty_nd_def)
qed

lemma set_data_normalised:
  assumes "length dim_order \<le> 3" and "length dim_order = ndim data"
    and "reorder_data data dim_order = Inr d" and "shape d = [P, S, R]"
    and "normalise (self st)" and "\<forall>xs. length (std xs) = length xs"
  shows "\<exists>dn. set_data std st data dim_order =
             (Inr (), st\<lparr>self := (self st)\<lparr>priv_data := Some dn, n_processes := Some P,
                                           n_samples := Some S, n_replications := Some R\<rparr>,
                         stdout := stdout st @ [Adding_data P S R, Overwriting_existing_data]\<rparr>)
           \<and> shape dn = [P, S, R]
           \<and> (\<forall>p < P. \<forall>j r. elems dn [p, j, r] =
                 std (map (\<lambda>k. elems d [p, k div R, k mod R]) [0..<S * R]) ! (j * R + r))"
proof -
  let ?st1 = "st\<lparr>self := (self st)\<lparr>n_processes := Some P, n_samples := Some S,
                                      n_replications := Some R\<rparr>\<rparr>"
  let ?st3 = "?st1\<lparr>self := (self ?st1)\<lparr>priv_data := None\<rparr>,
                    stdout := stdout st @ [Adding_data P S R, Overwriting_existing_data]\<rparr>"
  have sz: "set_data_size st d = (Inr (), ?st1)"
    using assms(4) by (simp add: set_data_size_def shape_at_def ndim_def Let_def)
  have del: "data_deleter (py_print (Adding_data P S R) ?st1) =
               ((case priv_data (self st) of None \<Rightarrow> Inl (AttributeError ''_data'') | Some _ \<Rightarrow> Inr ()),
                ?st3)"
    by (cases "priv_data (self st)") (simp_all add: data_deleter_def py_print_def Let_def)
  have "\<exists>dn. normalise_data std ?st3 d = Inr dn \<and> shape dn = [P, S, R]
           \<and> (\<forall>p < P. \<forall>j r. elems dn [p, j, r] =
                 std (map (\<lambda>k. elems d [p, k div R, k mod R]) [0..<S * R]) ! (j * R + r))"
    by (rule normalise_data_valid [OF assms(4) _ _ _ assms(6)]) simp_all
  then obtain dn where
    nd: "normalise_data std ?st3 d = Inr dn" and sh: "shape dn = [P, S, R]"
    and el: "\<forall>p < P. \<forall>j r. elems dn [p, j, r] =
                 std (map (\<lambda>k. elems d [p, k div R, k mod R]) [0..<S * R]) ! (j * R + r)"
    by blast
  have set: "data_setter ?st3 dn = (Inr (), ?st3\<lparr>self := (self ?st3)\<lparr>priv_data := Some dn\<rparr>\<rparr>)"
    by (simp add: data_setter_def data_getter_def)
  have "set_data std st data dim_order = (Inr (), ?st3\<lparr>self := (self ?st3)\<lparr>priv_data := Some dn\<rparr>\<rparr>)"
    using assms(1,2,3,5) sz del set nd
    by (cases "priv_data (self st)") (simp_all add: set_data_def)
  then show ?thesis using sh el by (intro exI [of _ dn]) simp
qed

section \<open>The default constructor normalises\<close>


lemma sequential_flat:
  "map (\<lambda>k. elems sequential_array [p, k div 3, k mod 3]) [0..<4 * 3] =
     map (\<lambda>k. Finite (real (p * 12 + k))) [0..<12]"
proof -
  have "real (k div 3) * 3 + real (k mod 3) = real k" for k :: nat
  proof -
    have "real (k div 3 * 3 + k mod 3) = real k" by (simp only: div_mult_mod_eq)
    then show ?thesis by (simp only: of_nat_add of_nat_mult of_nat_numeral)
  qed
  then show ?thesis by (simp add: sequential_array_def add.assoc)
qed

lemma normalised_state_facts:
  shows "fst (init standardise_spec blank_state (Some sequential_array) ''psr'' True) = Inr ()"
    and "\<exists>dn. stores (self normalised_state) dn 2 4 3
           \<and> (\<forall>p < 2. \<forall>j < 4. \<forall>r < 3.
                 elems dn [p, j, r] = Finite ((real (j * 3 + r) - 11 / 2) / sqrt (143 / 12)))"
proof -
  let ?st0 = "blank_state\<lparr>self := \<lparr>normalise = True, priv_data = None, n_processes = None,
                              n_samples = None, n_replications = None\<rparr>\<rparr>"
  have sh: "shape sequential_array = [2, 4, 3]" "ndim sequential_array = 3"
    by (simp_all add: sequential_array_def ndim_def)
  have "\<exists>dn. set_data standardise_spec ?st0 sequential_array ''psr'' =
             (Inr (), ?st0\<lparr>self := (self ?st0)\<lparr>priv_data := Some dn, n_processes := Some 2,
                                           n_samples := Some 4, n_replications := Some 3\<rparr>,
                         stdout := stdout ?st0 @ [Adding_data 2 4 3, Overwriting_existing_data]\<rparr>)
           \<and> shape dn = [2, 4, 3]
           \<and> (\<forall>p < 2. \<forall>j r. elems dn [p, j, r] =
                 standardise_spec (map (\<lambda>k. elems sequential_array [p, k div 3, k mod 3]) [0..<4 * 3])
                   ! (j * 3 + r))"
    by (rule set_data_normalised [OF _ _ reorder_psr [OF sh(2)] sh(1)]) (simp_all add: sh)
  then obtain dn where
    sd: "set_data standardise_spec ?st0 sequential_array ''psr'' =
             (Inr (), ?st0\<lparr>self := (self ?st0)\<lparr>priv_data := Some dn, n_processes := Some 2,
                                           n_samples := Some 4, n_replications := Some 3\<rparr>,
                         stdout := stdout ?st0 @ [Adding_data 2 4 3, Overwriting_existing_data]\<rparr>)"
    and shn: "shape dn = [2, 4, 3]"
    and el: "\<And>p j r. p < 2 \<Longrightarrow> elems dn [p, j, r] =
                 standardise_spec (map (\<lambda>k. elems sequential_array [p, k div 3, k mod 3]) [0..<4 * 3])
                   ! (j * 3 + r)"
    by blast
  have i: "init standardise_spec blank_state (Some sequential_array) ''psr'' True =
             (Inr (), ?st0\<lparr>self := (self ?st0)\<lparr>priv_data := Some dn, n_processes := Some 2,
                                           n_samples := Some 4, n_replications := Some 3\<rparr>,
                         stdout := stdout ?st0 @ [Adding_data 2 4 3, Overwriting_existing_data]\<rparr>)"
    using sd by (simp add: init_def)
  show "fst (init standardise_spec blank_state (Some sequential_array) ''psr'' True) = Inr ()"
    unfolding i by simp
  have st: "stores (self normalised_state) dn 2 4 3"
    unfolding normalised_state_def i using shn by (simp add: stores_def)
  have val: "elems dn [p, j, r] = Finite ((real (j * 3 + r) - 11 / 2) / sqrt (143 / 12))"
    if "p < 2" "j < 4" "r < 3" for p j r
  proof -
    have k: "j * 3 + r < 12" using that by linarith
    have "elems dn [p, j, r] =
            map (\<lambda>k. Finite ((real k - 11 / 2) / sqrt (143 / 12))) [0..<12] ! (j * 3 + r)"
      unfolding el [OF that(1)] sequential_flat standardise_sequence ..
    also have "\<dots> = Finite ((real (j * 3 + r) - 11 / 2) / sqrt (143 / 12))"
      using k by (simp del: upt_Suc)
    finally show ?thesis .
  qed
  show "\<exists>dn. stores (self normalised_state) dn 2 4 3
           \<and> (\<forall>p < 2. \<forall>j < 4. \<forall>r < 3.
                 elems dn [p, j, r] = Finite ((real (j * 3 + r) - 11 / 2) / sqrt (143 / 12)))"
    using st val by blast
qed

text \<open>
  Claim C6 as it is written does not say how the object is made. With the constructor's
  default, \<^verbatim>\<open>Data(np.arange(24).reshape(2, 4, 3), 'psr')\<close>, the data are standardised per
  process when they are set, the call succeeds, and \<^verbatim>\<open>get_realisations\<close> does not return
  the values of the input array: its result differs from the array of the claim.
\<close>

theorem sequential_scenario_counterexample:
  "fst (init standardise_spec blank_state (Some sequential_array) ''psr'' True) = Inr ()
   \<and> fst (get_realisations normalised_state (1, 3) [(1, 0), (1, 1), (1, 2)]) \<noteq>
       Inr (\<lparr>nrows = 3,
              cols = [[Finite 12, Finite 13, Finite 14],
                      [Finite 15, Finite 16, Finite 17],
                      [Finite 18, Finite 19, Finite 20]]\<rparr>, [0, 1, 2])"
proof -
  from normalised_state_facts(2) obtain dn where
    st: "stores (self normalised_state) dn 2 4 3"
    and val: "\<And>p j r. p < 2 \<Longrightarrow> j < 4 \<Longrightarrow> r < 3 \<Longrightarrow>
                 elems dn [p, j, r] = Finite ((real (j * 3 + r) - 11 / 2) / sqrt (143 / 12))"
    by blast
  have sh: "shape dn = [2, 4, 3]" using st by (simp add: stores_def)
  have nf: "nan_free dn"
    unfolding nan_free_def sh by (simp add: list_all_iff val isnan_def)
  have g: "get_data normalised_state [(1, 0), (1, 1), (1, 2)] (1, 3) False =
           (Inr (\<lparr>nrows = nat (int 4 - 3) * 3,
                   cols = map (column_of dn 2 (nat (int 4 - 3)) [0..<3]) [(1, 0), (1, 1), (1, 2)]\<rparr>,
                 concat (map (replicate (nat (int 4 - 3))) [0..<3])), normalised_state)"
    by (rule get_data_valid [OF st nf]) (simp_all add: valid_variable_def np_arange_def)
  have first: "column_of dn 2 (nat (int 4 - 3)) [0..<3] (1, 0) ! 0 = Finite ((- 11 / 2) / sqrt (143 / 12))"
    using val [of 1 0 0] by (simp add: column_of_def segment_def py_index_def upt_3)
  have neg: "(- 11 / 2) / sqrt (143 / 12) < (0::real)"
    by (simp add: divide_neg_pos)
  have ne: "Finite ((- 11 / 2) / sqrt (143 / 12)) \<noteq> Finite 12"
  proof
    assume "Finite ((- 11 / 2) / sqrt (143 / 12)) = Finite 12"
    then have "(- 11 / 2) / sqrt (143 / 12) = (12::real)" by (simp only: float64.inject)
    with neg show False by linarith
  qed
  have "fst (get_realisations normalised_state (1, 3) [(1, 0), (1, 1), (1, 2)]) \<noteq>
       Inr (\<lparr>nrows = 3,
              cols = [[Finite 12, Finite 13, Finite 14],
                      [Finite 15, Finite 16, Finite 17],
                      [Finite 18, Finite 19, Finite 20]]\<rparr>, [0, 1, 2])"
  proof
    assume "fst (get_realisations normalised_state (1, 3) [(1, 0), (1, 1), (1, 2)]) =
       Inr (\<lparr>nrows = 3,
              cols = [[Finite 12, Finite 13, Finite 14],
                      [Finite 15, Finite 16, Finite 17],
                      [Finite 18, Finite 19, Finite 20]]\<rparr>, [0, 1, 2])"
    then have "column_of dn 2 (nat (int 4 - 3)) [0..<3] (1, 0) = [Finite 12, Finite 13, Finite 14]"
      unfolding get_realisations_def g by simp
    then have "column_of dn 2 (nat (int 4 - 3)) [0..<3] (1, 0) ! 0 = Finite 12" by simp
    with first ne show False by simp
  qed
  then show ?thesis using normalised_state_facts(1) by simp
qed



section \<open>Direct assignment to the data attribute\<close>




text \<open>
  The scenario from a state before any object is made, with the identity in the place of
  the standardisation, which is not called.
\<close>

theorem sequential_scenario_witness:
  "get_realisations (snd (init id blank_state (Some sequential_array) ''psr'' False)) (1, 3)
         [(1, 0), (1, 1), (1, 2)] =
       (Inr (\<lparr>nrows = 3,
               cols = [[Finite 12, Finite 13, Finite 14],
                       [Finite 15, Finite 16, Finite 17],
                       [Finite 18, Finite 19, Finite 20]]\<rparr>, [0, 1, 2]),
        snd (init id blank_state (Some sequential_array) ''psr'' False))"
  using sequential_scenario [of id blank_state] by - (elim conjE, assumption)

end
